theory Spec2Isabelle
  imports Main
begin

section \<open>Column grouping of vectorbt: \<open>vectorbt/base/column_grouper.py\<close>\<close>

subsection \<open>Data model\<close>

text \<open>
  The failures the module raises itself are Python \<open>ValueError\<close>s told apart by their
  message; the constructors below name them after the error taxonomy of the
  specification, and add the failures of the functions it calls:
  \<^item> \<open>LengthMismatch\<close>: "group_by and index must have the same length";
  \<^item> \<open>IncoherentGroupsError\<close>: "Groups must be coherent and sorted";
  \<^item> \<open>PermissionError Enable\<close>: "Enabling grouping is not allowed", and likewise
    \<open>Disable\<close> and \<open>Modify\<close> ("Changing groups is not allowed");
  \<^item> \<open>MissingInputError\<close>: \<open>checks.assert_not_none(columns)\<close> failed;
  \<^item> \<open>LevelError\<close>: whatever \<open>index_fns.select_levels\<close> raises;
  \<^item> \<open>TypeError\<close>: \<open>pd.Index\<close> called with \<open>None\<close> or a \<open>bool\<close>;
  \<^item> \<open>IndexError\<close>: a write outside the bounds of the result array of
    \<open>get_group_counts_nb\<close>.
\<close>

datatype perm = Enable | Disable | Modify

datatype error =
    LengthMismatch
  | IncoherentGroupsError
  | PermissionError perm
  | MissingInputError
  | LevelError
  | TypeError
  | IndexError

text \<open>
  A label of an index is a value of some type \<open>'a\<close> with equality (a hierarchical label is
  a tuple value of that type), or is missing: \<open>None\<close> or \<open>NaN\<close>, which pandas treats as
  no value.
\<close>

datatype 'a label = Missing | Label 'a

text \<open>
  A \<open>pd.Index\<close>: the sequence of its labels and its level names (\<open>index.names\<close>; for a
  one-level index the list holds the single \<open>index.name\<close>).
\<close>

record 'a pd_index =
  vals :: "'a label list"
  names :: "string option list"

text \<open>\<open>pd.Index(xs)\<close> of a raw sequence: the labels, with no name.\<close>

definition pd_Index :: "'a label list \<Rightarrow> 'a pd_index" where
  "pd_Index xs = \<lparr>vals = xs, names = [None]\<rparr>"

text \<open>\<open>pd.Index.equals\<close> compares the elements and their order, not the names.\<close>

definition pd_Index_equals :: "'a pd_index \<Rightarrow> 'a pd_index \<Rightarrow> bool" where
  "pd_Index_equals a b \<longleftrightarrow> vals a = vals b"

text \<open>
  The argument \<open>group_by\<close>, by the cases the code tells apart with \<open>isinstance\<close>:
  \<open>None\<close>, a \<open>bool\<close>, a level selector (\<open>int\<close>, \<open>str\<close>, \<open>tuple\<close> or \<open>list\<close>),
  a \<open>pd.Index\<close>, or any other sequence (a NumPy array of raw groups).
\<close>

datatype level = LevelPos int | LevelName string

datatype selector = Level level | Levels "level list"

datatype 'a group_by =
    GNone
  | GBool bool
  | GSelect selector
  | GIndex "'a pd_index"
  | GArray "'a label list"

text \<open>
  \<open>index_fns.select_levels\<close> is not among the sources. Every function below that reaches
  it takes it as its first parameter \<open>sl\<close>, of this type: given the index and the
  selector it returns an index, or raises (\<open>None\<close>), which is the error \<open>LevelError\<close>
  of its caller.
\<close>

type_synonym 'a select_levels = "'a pd_index \<Rightarrow> selector \<Rightarrow> 'a pd_index option"

subsection \<open>\<open>group_by_to_index\<close>\<close>

text \<open>
  Lines 22 to 25, for a \<open>group_by\<close> that is neither \<open>None\<close> nor a \<open>bool\<close>: a level
  selector is expanded by \<open>select_levels\<close>, an index is kept, any other sequence is
  coerced by \<open>pd.Index\<close>. Line 19 has returned \<open>None\<close> and a \<open>bool\<close> before;
  \<open>pd.Index\<close> of either raises a \<open>TypeError\<close>.
\<close>

fun coerce_mapper :: "'a select_levels \<Rightarrow> 'a pd_index \<Rightarrow> 'a group_by \<Rightarrow> error + 'a pd_index" where
  "coerce_mapper sl index (GSelect s) =
     (case sl index s of None \<Rightarrow> Inl LevelError | Some gx \<Rightarrow> Inr gx)"
| "coerce_mapper sl index (GIndex gx) = Inr gx"
| "coerce_mapper sl index (GArray xs) = Inr (pd_Index xs)"
| "coerce_mapper sl index GNone = Inl TypeError"
| "coerce_mapper sl index (GBool b) = Inl TypeError"

text \<open>Lines 26 to 28, and lines 22 to 28 together.\<close>

definition check_same_length :: "'a pd_index \<Rightarrow> 'a pd_index \<Rightarrow> error + 'a pd_index" where
  "check_same_length index gx =
     (if length (vals gx) \<noteq> length (vals index) then Inl LengthMismatch else Inr gx)"

definition mapper_to_index :: "'a select_levels \<Rightarrow> 'a pd_index \<Rightarrow> 'a group_by \<Rightarrow> error + 'a pd_index" where
  "mapper_to_index sl index gb =
     (case coerce_mapper sl index gb of
        Inl e \<Rightarrow> Inl e
      | Inr gx \<Rightarrow> check_same_length index gx)"

text \<open>\<open>group_by is None or isinstance(group_by, bool)\<close>, and the whole function.\<close>

definition is_none_or_bool :: "'a group_by \<Rightarrow> bool" where
  "is_none_or_bool gb = (case gb of GNone \<Rightarrow> True | GBool b \<Rightarrow> True | _ \<Rightarrow> False)"

definition group_by_to_index :: "'a select_levels \<Rightarrow> 'a pd_index \<Rightarrow> 'a group_by \<Rightarrow> error + 'a group_by" where
  "group_by_to_index sl index gb =
     (if is_none_or_bool gb then Inr gb
      else (case mapper_to_index sl index gb of Inl e \<Rightarrow> Inl e | Inr gx \<Rightarrow> Inr (GIndex gx)))"

subsection \<open>\<open>get_groups_and_index\<close>\<close>

text \<open>
  \<open>pd.factorize\<close> is a function of pandas, not of the repository. It is modelled as
  pandas documents it and as section 4.2 of the specification describes it: scan the
  labels once, assigning each newly seen distinct label the next integer id; the second
  component is the sequence of distinct labels in that order. A missing label is no
  label: its id is the sentinel \<open>- 1\<close>, and it is left out of the distinct labels.
  \<open>factorize_from us xs\<close> is the scan of \<open>xs\<close> with the table \<open>us\<close> of the labels seen so
  far, and \<open>index_of x us\<close> the position of \<open>x\<close> in the table.
\<close>

fun index_of :: "'a \<Rightarrow> 'a list \<Rightarrow> nat" where
  "index_of x [] = 0"
| "index_of x (y # ys) = (if x = y then 0 else Suc (index_of x ys))"

fun factorize_from :: "'a label list \<Rightarrow> 'a label list \<Rightarrow> int list \<times> 'a label list" where
  "factorize_from us [] = ([], us)"
| "factorize_from us (x # xs) =
     (if x = Missing
      then (let (codes, uniques) = factorize_from us xs in (- 1 # codes, uniques))
      else (let us' = (if x \<in> set us then us else us @ [x]);
                (codes, uniques) = factorize_from us' xs
            in (int (index_of x us') # codes, uniques)))"

definition factorize :: "'a label list \<Rightarrow> int list \<times> 'a label list" where
  "factorize xs = factorize_from [] xs"

text \<open>
  Modelled from the spec: \<open>is_sorted\<close> of \<open>vectorbt.utils.array\<close> is not among the
  sources. Section 4.2: walking the ids left to right, the current id must never be
  smaller than the previous one.
\<close>

fun is_sorted :: "int list \<Rightarrow> bool" where
  "is_sorted [] = True"
| "is_sorted [x] = True"
| "is_sorted (x # y # zs) = (x \<le> y \<and> is_sorted (y # zs))"

text \<open>\<open>np.arange(n)\<close>.\<close>

definition arange :: "nat \<Rightarrow> int list" where
  "arange n = map int [0..<n]"

text \<open>
  After the test for \<open>None\<close> and \<open>bool\<close>, \<open>group_by_to_index\<close> returns an index or
  raises; the last case, \<open>pd.factorize\<close> of anything else, is there for totality. Both
  branches of lines 41 to 44 copy the names of \<open>group_by\<close> to the new index.
\<close>

definition get_groups_and_index ::
  "'a select_levels \<Rightarrow> 'a pd_index \<Rightarrow> 'a group_by \<Rightarrow> error + (int list \<times> 'a pd_index)" where
  "get_groups_and_index sl index gb =
     (if is_none_or_bool gb then Inr (arange (length (vals index)), index)
      else (case group_by_to_index sl index gb of
              Inl e \<Rightarrow> Inl e
            | Inr (GIndex gx) \<Rightarrow>
                (let (groups, uniques) = factorize (vals gx);
                     index' = (pd_Index uniques)\<lparr>names := names gx\<rparr>
                 in if \<not> is_sorted groups then Inl IncoherentGroupsError
                    else Inr (groups, index'))
            | Inr _ \<Rightarrow> Inl TypeError))"

subsection \<open>\<open>get_group_counts_nb\<close>\<close>

text \<open>
  The local variables of the loop. \<open>result\<close> is the array of \<open>np.empty\<close>, whose cells are
  written before they are read; \<open>j\<close> indexes it.
\<close>

record nb_state =
  result :: "int list"
  j :: nat
  prev_group :: int
  run_count :: int

text \<open>\<open>result[j] = run_count; j += 1; run_count = 0\<close>, failing outside the array.\<close>

definition emit :: "nb_state \<Rightarrow> error + nb_state" where
  "emit s =
     (if j s < length (result s)
      then Inr (s\<lparr>result := (result s)[j s := run_count s], j := j s + 1, run_count := 0\<rparr>)
      else Inl IndexError)"

text \<open>The body of the loop at index \<open>i\<close>.\<close>

definition nb_body :: "int list \<Rightarrow> nat \<Rightarrow> nb_state \<Rightarrow> error + nb_state" where
  "nb_body groups i s =
     (let cur_group = groups ! i in
      if cur_group < prev_group s then Inl IncoherentGroupsError
      else
        (case (if cur_group \<noteq> prev_group s
               then (case (if prev_group s \<noteq> - 1 then emit s else Inr s) of
                       Inl e \<Rightarrow> Inl e
                     | Inr s1 \<Rightarrow> Inr (s1\<lparr>prev_group := cur_group\<rparr>))
               else Inr s) of
           Inl e \<Rightarrow> Inl e
         | Inr s2 \<Rightarrow>
             (let s3 = s2\<lparr>run_count := run_count s2 + 1\<rparr>
              in if int i = int (length groups) - 1 then emit s3 else Inr s3)))"

text \<open>\<open>for i in range(n)\<close>: the body at each index in turn, stopping at the first raise.\<close>

fun for_range :: "(nat \<Rightarrow> 's \<Rightarrow> error + 's) \<Rightarrow> nat list \<Rightarrow> 's \<Rightarrow> error + 's" where
  "for_range body [] s = Inr s"
| "for_range body (i # is) s =
     (case body i s of Inl e \<Rightarrow> Inl e | Inr s' \<Rightarrow> for_range body is s')"

definition nb_init :: "nat \<Rightarrow> nb_state" where
  "nb_init n = \<lparr>result = replicate n 0, j = 0, prev_group = - 1, run_count = 0\<rparr>"

definition get_group_counts_nb :: "int list \<Rightarrow> error + int list" where
  "get_group_counts_nb groups =
     (case for_range (nb_body groups) [0..<length groups] (nb_init (length groups)) of
        Inl e \<Rightarrow> Inl e
      | Inr s \<Rightarrow> Inr (take (j s) (result s)))"

subsection \<open>\<open>ColumnGrouper\<close>\<close>

text \<open>
  The attributes of a grouper. \<open>group_by\<close> is the stored mapper: \<open>None\<close>, or the index
  that \<open>group_by_to_index\<close> made of the constructor's argument.
\<close>

record 'a ColumnGrouper =
  columns :: "'a pd_index"
  group_by :: "'a pd_index option"
  allow_enable :: bool
  allow_disable :: bool
  allow_modify :: bool

text \<open>
  \<open>__init__\<close>; the argument \<open>columns\<close> may be \<open>None\<close>, which the constructor refuses.
  \<open>stored\<close> reads the result of \<open>group_by_to_index\<close>, an index, into the attribute.
\<close>

definition stored :: "'a group_by \<Rightarrow> 'a pd_index option" where
  "stored gb = (case gb of GIndex gx \<Rightarrow> Some gx | _ \<Rightarrow> None)"

definition ColumnGrouper_init ::
  "'a select_levels \<Rightarrow> 'a pd_index option \<Rightarrow> 'a group_by \<Rightarrow> bool \<Rightarrow> bool \<Rightarrow> bool
     \<Rightarrow> error + 'a ColumnGrouper" where
  "ColumnGrouper_init sl cols_arg gb ae ad am =
     (case cols_arg of
        None \<Rightarrow> Inl MissingInputError
      | Some cols \<Rightarrow>
          (if is_none_or_bool gb
           then Inr \<lparr>columns = cols, group_by = None,
                     allow_enable = ae, allow_disable = ad, allow_modify = am\<rparr>
           else (case group_by_to_index sl cols gb of
                   Inl e \<Rightarrow> Inl e
                 | Inr gb' \<Rightarrow> Inr \<lparr>columns = cols, group_by = stored gb',
                                   allow_enable = ae, allow_disable = ad, allow_modify = am\<rparr>)))"

text \<open>The stored mapper read as an argument \<open>group_by\<close>.\<close>

definition self_group_by :: "'a ColumnGrouper \<Rightarrow> 'a group_by" where
  "self_group_by g = (case group_by g of None \<Rightarrow> GNone | Some gx \<Rightarrow> GIndex gx)"

definition is_grouped :: "'a ColumnGrouper \<Rightarrow> 'a group_by \<Rightarrow> bool" where
  "is_grouped g gb =
     (case gb of
        GBool False \<Rightarrow> False
      | GNone \<Rightarrow> group_by g \<noteq> None
      | GBool True \<Rightarrow> group_by g \<noteq> None
      | _ \<Rightarrow> True)"

definition is_grouping_enabled :: "'a ColumnGrouper \<Rightarrow> 'a group_by \<Rightarrow> bool" where
  "is_grouping_enabled g gb \<longleftrightarrow> group_by g = None \<and> is_grouped g gb"

definition is_grouping_disabled :: "'a ColumnGrouper \<Rightarrow> 'a group_by \<Rightarrow> bool" where
  "is_grouping_disabled g gb \<longleftrightarrow> group_by g \<noteq> None \<and> \<not> is_grouped g gb"

definition is_grouping_modified ::
  "'a select_levels \<Rightarrow> 'a ColumnGrouper \<Rightarrow> 'a group_by \<Rightarrow> error + bool" where
  "is_grouping_modified sl g gb =
     (case group_by_to_index sl (columns g) gb of
        Inl e \<Rightarrow> Inl e
      | Inr (GIndex gx) \<Rightarrow>
          (case group_by g of
             None \<Rightarrow> Inr False
           | Some bx \<Rightarrow>
               (if \<not> pd_Index_equals gx bx
                then (case get_groups_and_index sl (columns g) (GIndex gx) of
                        Inl e \<Rightarrow> Inl e
                      | Inr (groups1, _) \<Rightarrow>
                          (case get_groups_and_index sl (columns g) (GIndex bx) of
                             Inl e \<Rightarrow> Inl e
                           | Inr (groups2, _) \<Rightarrow>
                               (if groups1 \<noteq> groups2 then Inr True else Inr False)))
                else Inr False))
      | Inr _ \<Rightarrow> Inr False)"

text \<open>\<open>or\<close> evaluates its right operand only when the left one is false.\<close>

definition is_grouping_changed ::
  "'a select_levels \<Rightarrow> 'a ColumnGrouper \<Rightarrow> 'a group_by \<Rightarrow> error + bool" where
  "is_grouping_changed sl g gb =
     (if is_grouping_enabled g gb then Inr True
      else if is_grouping_disabled g gb then Inr True
      else is_grouping_modified sl g gb)"

text \<open>
  The keyword arguments \<open>allow_enable\<close>, \<open>allow_disable\<close>, \<open>allow_modify\<close> that a call
  may pass (\<open>None\<close>: the grouper's own flag), and \<open>**kwargs\<close> of the accessors, which
  holds them and \<open>group_by\<close> (\<open>GNone\<close> when the call passes none).
\<close>

record flags =
  kw_allow_enable :: "bool option"
  kw_allow_disable :: "bool option"
  kw_allow_modify :: "bool option"

definition no_flags :: flags where
  "no_flags = \<lparr>kw_allow_enable = None, kw_allow_disable = None, kw_allow_modify = None\<rparr>"

definition or_default :: "bool option \<Rightarrow> bool \<Rightarrow> bool" where
  "or_default kw d = (case kw of None \<Rightarrow> d | Some b \<Rightarrow> b)"

definition check_group_by ::
  "'a select_levels \<Rightarrow> 'a ColumnGrouper \<Rightarrow> 'a group_by \<Rightarrow> flags \<Rightarrow> error + unit" where
  "check_group_by sl g gb kw =
     (let ae = or_default (kw_allow_enable kw) (allow_enable g);
          ad = or_default (kw_allow_disable kw) (allow_disable g);
          am = or_default (kw_allow_modify kw) (allow_modify g)
      in if \<not> ae \<and> is_grouping_enabled g gb then Inl (PermissionError Enable)
         else if \<not> ad \<and> is_grouping_disabled g gb then Inl (PermissionError Disable)
         else if \<not> am
              then (case is_grouping_modified sl g gb of
                      Inl e \<Rightarrow> Inl e
                    | Inr True \<Rightarrow> Inl (PermissionError Modify)
                    | Inr False \<Rightarrow> Inr ())
              else Inr ())"

text \<open>The value of \<open>group_by\<close> after lines 193 to 196 of \<open>resolve_group_by\<close>.\<close>

definition substitute_group_by :: "'a ColumnGrouper \<Rightarrow> 'a group_by \<Rightarrow> 'a group_by" where
  "substitute_group_by g gb =
     (let gb1 = (case gb of GNone \<Rightarrow> self_group_by g | GBool True \<Rightarrow> self_group_by g | _ \<Rightarrow> gb)
      in case gb1 of
           GBool False \<Rightarrow> (if group_by g = None then GNone else gb1)
         | _ \<Rightarrow> gb1)"

definition resolve_group_by ::
  "'a select_levels \<Rightarrow> 'a ColumnGrouper \<Rightarrow> 'a group_by \<Rightarrow> flags \<Rightarrow> error + 'a group_by" where
  "resolve_group_by sl g gb kw =
     (let gb' = substitute_group_by g gb
      in case check_group_by sl g gb' kw of
           Inl e \<Rightarrow> Inl e
         | Inr _ \<Rightarrow> group_by_to_index sl (columns g) gb')"

definition get_groups_and_columns ::
  "'a select_levels \<Rightarrow> 'a ColumnGrouper \<Rightarrow> 'a group_by \<Rightarrow> flags
     \<Rightarrow> error + (int list \<times> 'a pd_index)" where
  "get_groups_and_columns sl g gb kw =
     (case resolve_group_by sl g gb kw of
        Inl e \<Rightarrow> Inl e
      | Inr gb' \<Rightarrow> get_groups_and_index sl (columns g) gb')"

definition get_groups ::
  "'a select_levels \<Rightarrow> 'a ColumnGrouper \<Rightarrow> 'a group_by \<Rightarrow> flags \<Rightarrow> error + int list" where
  "get_groups sl g gb kw =
     (case get_groups_and_columns sl g gb kw of Inl e \<Rightarrow> Inl e | Inr r \<Rightarrow> Inr (fst r))"

definition get_columns ::
  "'a select_levels \<Rightarrow> 'a ColumnGrouper \<Rightarrow> 'a group_by \<Rightarrow> flags \<Rightarrow> error + 'a pd_index" where
  "get_columns sl g gb kw =
     (case get_groups_and_columns sl g gb kw of Inl e \<Rightarrow> Inl e | Inr r \<Rightarrow> Inr (snd r))"

text \<open>\<open>np.full(n, 1)\<close>, \<open>np.cumsum\<close>, and the difference of two arrays of one length.\<close>

definition full_ones :: "nat \<Rightarrow> int list" where
  "full_ones n = replicate n 1"

fun cumsum_from :: "int \<Rightarrow> int list \<Rightarrow> int list" where
  "cumsum_from acc [] = []"
| "cumsum_from acc (x # xs) = (acc + x) # cumsum_from (acc + x) xs"

definition cumsum :: "int list \<Rightarrow> int list" where
  "cumsum xs = cumsum_from 0 xs"

definition array_sub :: "int list \<Rightarrow> int list \<Rightarrow> int list" where
  "array_sub xs ys = map (\<lambda>(x, y). x - y) (zip xs ys)"

definition get_group_counts ::
  "'a select_levels \<Rightarrow> 'a ColumnGrouper \<Rightarrow> 'a group_by \<Rightarrow> flags \<Rightarrow> error + int list" where
  "get_group_counts sl g gb kw =
     (case resolve_group_by sl g gb kw of
        Inl e \<Rightarrow> Inl e
      | Inr gb' \<Rightarrow>
          (if gb' = GNone \<or> gb' = GBool False
           then Inr (full_ones (length (vals (columns g))))
           else (case get_groups sl g gb kw of
                   Inl e \<Rightarrow> Inl e
                 | Inr groups \<Rightarrow> get_group_counts_nb groups)))"

text \<open>The array expressions of lines 227 and 233.\<close>

definition start_idxs :: "int list \<Rightarrow> int list" where
  "start_idxs group_counts = array_sub (cumsum group_counts) group_counts"

definition end_idxs :: "int list \<Rightarrow> int list" where
  "end_idxs group_counts = cumsum group_counts"

definition get_group_start_idxs ::
  "'a select_levels \<Rightarrow> 'a ColumnGrouper \<Rightarrow> 'a group_by \<Rightarrow> flags \<Rightarrow> error + int list" where
  "get_group_start_idxs sl g gb kw =
     (case get_group_counts sl g gb kw of
        Inl e \<Rightarrow> Inl e
      | Inr group_counts \<Rightarrow> Inr (start_idxs group_counts))"

definition get_group_end_idxs ::
  "'a select_levels \<Rightarrow> 'a ColumnGrouper \<Rightarrow> 'a group_by \<Rightarrow> flags \<Rightarrow> error + int list" where
  "get_group_end_idxs sl g gb kw =
     (case get_group_counts sl g gb kw of
        Inl e \<Rightarrow> Inl e
      | Inr group_counts \<Rightarrow> Inr (end_idxs group_counts))"

text \<open>
  Reading an array at a position, \<open>a[i]\<close> and \<open>a[-1]\<close>: outside the array the read raises,
  which is \<open>None\<close> here.
\<close>

definition getitem :: "'b list \<Rightarrow> nat \<Rightarrow> 'b option" where
  "getitem a i = (if i < length a then Some (a ! i) else None)"

text \<open>
  \<open>a[i]\<close> for an integer \<open>i\<close> that may be negative: a negative position counts from the
  end.
\<close>

definition index_at :: "'b list \<Rightarrow> int \<Rightarrow> 'b option" where
  "index_at a i =
     (let n = int (length a); k = (if i < 0 then n + i else i)
      in if 0 \<le> k \<and> k < n then Some (a ! nat k) else None)"

definition getlast :: "'b list \<Rightarrow> 'b option" where
  "getlast a = (if a = [] then None else Some (last a))"

text \<open>
  What the constructor establishes of the stored mapper: it has passed the length check of
  \<open>group_by_to_index\<close> against the columns.
\<close>

definition grouper_ok :: "'a ColumnGrouper \<Rightarrow> bool" where
  "grouper_ok g =
     (case group_by g of None \<Rightarrow> True | Some bx \<Rightarrow> length (vals bx) = length (vals (columns g)))"

subsection \<open>Example objects\<close>

text \<open>
  Three columns with one-level labels, on which \<open>select_levels\<close> raises (the index is
  not a \<open>pd.MultiIndex\<close>), and groupers over them.
\<close>

definition no_levels :: "string select_levels" where
  "no_levels index s = None"

definition abc_columns :: "string pd_index" where
  "abc_columns = pd_Index [Label ''c1'', Label ''c2'', Label ''c3'']"

definition aab :: "string label list" where
  "aab = [Label ''a'', Label ''a'', Label ''b'']"

definition xxy :: "string label list" where
  "xxy = [Label ''x'', Label ''x'', Label ''y'']"

definition abb :: "string label list" where
  "abb = [Label ''a'', Label ''b'', Label ''b'']"

definition aba :: "string label list" where
  "aba = [Label ''a'', Label ''b'', Label ''a'']"

definition naa :: "string label list" where
  "naa = [Missing, Label ''a'', Label ''a'']"

definition ungrouped :: "bool \<Rightarrow> bool \<Rightarrow> bool \<Rightarrow> string ColumnGrouper" where
  "ungrouped ae ad am =
     \<lparr>columns = abc_columns, group_by = None,
      allow_enable = ae, allow_disable = ad, allow_modify = am\<rparr>"

definition grouped_aab :: "bool \<Rightarrow> bool \<Rightarrow> bool \<Rightarrow> string ColumnGrouper" where
  "grouped_aab ae ad am =
     \<lparr>columns = abc_columns, group_by = Some (pd_Index aab),
      allow_enable = ae, allow_disable = ad, allow_modify = am\<rparr>"

subsection \<open>Predicates of the specification and of the proofs\<close>

text \<open>
  Section 3, the ids that factorization assigns: dense integers in first-appearance order
  of the distinct labels. The id of a label is the number of distinct labels that occur
  before its first occurrence; a missing label does not count, and has the id \<open>- 1\<close> of
  \<open>pd.factorize\<close>.
\<close>

definition first_appearance_ids :: "'a label list \<Rightarrow> int list" where
  "first_appearance_ids xs =
     map (\<lambda>x. if x = Missing then - 1
              else int (card (set (take (index_of x xs) xs) - {Missing}))) xs"

text \<open>
  An id array is not coherent when some id recurs after a different id has appeared:
  positions \<open>p < q < r\<close> with the id of \<open>p\<close> again at \<open>r\<close> and another id at \<open>q\<close>.
\<close>

definition recurs :: "int list \<Rightarrow> bool" where
  "recurs ids \<longleftrightarrow>
     (\<exists>r \<in> {..<length ids}. \<exists>q \<in> {..<r}. \<exists>p \<in> {..<q}. ids ! q \<noteq> ids ! p \<and> ids ! r = ids ! p)"

text \<open>A missing label comes after a label that is not missing.\<close>

definition missing_after_label :: "'a label list \<Rightarrow> bool" where
  "missing_after_label xs \<longleftrightarrow>
     (\<exists>q \<in> {..<length xs}. \<exists>p \<in> {..<q}. xs ! p \<noteq> Missing \<and> xs ! q = Missing)"

text \<open>
  The invariant of the loop of \<open>get_group_counts_nb\<close> before the iteration at index \<open>i\<close>,
  and what holds of its state after the last iteration.
\<close>

definition nb_inv :: "int list \<Rightarrow> nat \<Rightarrow> nb_state \<Rightarrow> bool" where
  "nb_inv groups i s \<longleftrightarrow>
     length (result s) = length groups \<and> j s \<le> i - 1 \<and>
     prev_group s = (- 1 # groups) ! i \<and>
     sum_list (take (j s) (result s)) + run_count s = int i"

definition nb_final :: "int list \<Rightarrow> nb_state \<Rightarrow> bool" where
  "nb_final groups s \<longleftrightarrow>
     length (result s) = length groups \<and> j s \<le> length groups \<and>
     sum_list (take (j s) (result s)) = int (length groups)"

section \<open>Auxiliary facts\<close>

subsection \<open>Factorization\<close>

lemma is_sorted_iff_sorted: "is_sorted xs = sorted xs"
  by (induction xs rule: is_sorted.induct) fastforce+

lemma index_of_less: "x \<in> set ys \<Longrightarrow> index_of x ys < length ys"
  by (induction ys) auto

lemma nth_index_of: "x \<in> set ys \<Longrightarrow> ys ! index_of x ys = x"
  by (induction ys) auto

lemma index_of_append_in: "x \<in> set us \<Longrightarrow> index_of x (us @ ws) = index_of x us"
  by (induction us) auto

lemma index_of_append_notin:
  "x \<notin> set us \<Longrightarrow> index_of x (us @ ws) = length us + index_of x ws"
  by (induction us) auto

lemma index_of_nth_distinct:
  "distinct ys \<Longrightarrow> k < length ys \<Longrightarrow> index_of (ys ! k) ys = k"
proof (induction ys arbitrary: k)
  case Nil
  then show ?case by simp
next
  case (Cons y ys)
  show ?case
  proof (cases k)
    case 0
    then show ?thesis by simp
  next
    case (Suc m)
    with Cons.prems have "m < length ys" "ys ! m \<in> set ys" "y \<notin> set ys" "distinct ys"
      by auto
    with Cons.IH [of m] Suc show ?thesis by auto
  qed
qed


lemma factorize_from_Cons:
  "fst (factorize_from us (x # xs)) =
     (if x = Missing then - 1
      else int (index_of x (if x = Missing \<or> x \<in> set us then us else us @ [x])))
       # fst (factorize_from (if x = Missing \<or> x \<in> set us then us else us @ [x]) xs)"
  "snd (factorize_from us (x # xs)) =
     snd (factorize_from (if x = Missing \<or> x \<in> set us then us else us @ [x]) xs)"
  by (simp_all add: Let_def case_prod_beta)

lemma factorize_from_length: "length (fst (factorize_from us xs)) = length xs"
  by (induction xs arbitrary: us)
     (auto simp: factorize_from_Cons simp del: factorize_from.simps(2))

lemma factorize_from_set: "set (snd (factorize_from us xs)) = set us \<union> (set xs - {Missing})"
  by (induction xs arbitrary: us)
     (auto simp: factorize_from_Cons simp del: factorize_from.simps(2))

lemma factorize_from_distinct: "distinct us \<Longrightarrow> distinct (snd (factorize_from us xs))"
  by (induction xs arbitrary: us)
     (auto simp: factorize_from_Cons simp del: factorize_from.simps(2))

lemma factorize_from_extends: "\<exists>ws. snd (factorize_from us xs) = us @ ws"
proof (induction xs arbitrary: us)
  case Nil
  then show ?case by simp
next
  case (Cons x xs)
  show ?case
  proof (cases "x = Missing \<or> x \<in> set us")
    case True
    with Cons.IH [of us] show ?thesis
      by (simp add: factorize_from_Cons del: factorize_from.simps(2))
  next
    case False
    from Cons.IH [of "us @ [x]"] obtain ws
      where "snd (factorize_from (us @ [x]) xs) = (us @ [x]) @ ws"
      by blast
    with False show ?thesis
      by (simp add: factorize_from_Cons del: factorize_from.simps(2))
  qed
qed

lemma factorize_from_codes:
  "fst (factorize_from us xs) =
     map (\<lambda>x. if x = Missing then - 1
              else int (index_of x (snd (factorize_from us xs)))) xs"
proof (induction xs arbitrary: us)
  case Nil
  then show ?case by simp
next
  case (Cons x xs)
  define us' where "us' = (if x = Missing \<or> x \<in> set us then us else us @ [x])"
  have in_us': "x \<in> set us'" if "x \<noteq> Missing"
    using that by (simp add: us'_def)
  obtain ws where ws: "snd (factorize_from us' xs) = us' @ ws"
    using factorize_from_extends by blast
  have "index_of x (snd (factorize_from us' xs)) = index_of x us'" if "x \<noteq> Missing"
    by (simp add: ws index_of_append_in in_us' that)
  moreover have "fst (factorize_from us' xs) =
      map (\<lambda>x. if x = Missing then - 1
               else int (index_of x (snd (factorize_from us' xs)))) xs"
    by (rule Cons.IH)
  moreover have "fst (factorize_from us (x # xs)) =
      (if x = Missing then - 1 else int (index_of x us')) # fst (factorize_from us' xs)"
    unfolding us'_def by (rule factorize_from_Cons(1))
  moreover have "snd (factorize_from us (x # xs)) = snd (factorize_from us' xs)"
    unfolding us'_def by (rule factorize_from_Cons(2))
  ultimately show ?case
    by (simp del: factorize_from.simps(2))
qed

lemma factorize_length: "length (fst (factorize xs)) = length xs"
  by (simp add: factorize_def factorize_from_length)

lemma factorize_set: "set (snd (factorize xs)) = set xs - {Missing}"
  by (simp add: factorize_def factorize_from_set)

lemma factorize_distinct: "distinct (snd (factorize xs))"
  by (simp add: factorize_def factorize_from_distinct)

lemma factorize_codes:
  "fst (factorize xs) =
     map (\<lambda>x. if x = Missing then - 1 else int (index_of x (snd (factorize xs)))) xs"
  unfolding factorize_def by (rule factorize_from_codes)

lemma factorize_nth:
  assumes "i < length xs"
  shows "fst (factorize xs) ! i =
     (if xs ! i = Missing then - 1 else int (index_of (xs ! i) (snd (factorize xs))))"
  using assms by (subst factorize_codes) simp

lemma factorize_nth_Missing:
  assumes "i < length xs"
  shows "fst (factorize xs) ! i = - 1 \<longleftrightarrow> xs ! i = Missing"
  using assms by (simp add: factorize_nth)

lemma factorize_roundtrip:
  assumes "i < length xs" and "xs ! i \<noteq> Missing"
  shows "0 \<le> fst (factorize xs) ! i"
    and "nat (fst (factorize xs) ! i) < length (snd (factorize xs))"
    and "snd (factorize xs) ! nat (fst (factorize xs) ! i) = xs ! i"
proof -
  have mem: "xs ! i \<in> set (snd (factorize xs))"
    using assms by (simp add: factorize_set)
  show "0 \<le> fst (factorize xs) ! i"
    by (simp add: factorize_nth assms)
  show "nat (fst (factorize xs) ! i) < length (snd (factorize xs))"
    by (simp add: factorize_nth assms index_of_less mem)
  show "snd (factorize xs) ! nat (fst (factorize xs) ! i) = xs ! i"
    by (simp add: factorize_nth assms nth_index_of mem)
qed

lemma factorize_codes_set:
  "set (fst (factorize xs)) =
     int ` {0..<length (snd (factorize xs))} \<union> (if Missing \<in> set xs then {- 1} else {})"
proof
  show "set (fst (factorize xs))
      \<subseteq> int ` {0..<length (snd (factorize xs))} \<union> (if Missing \<in> set xs then {- 1} else {})"
  proof
    fix c assume "c \<in> set (fst (factorize xs))"
    then obtain x where x: "x \<in> set xs"
      "c = (if x = Missing then - 1 else int (index_of x (snd (factorize xs))))"
      by (subst (asm) factorize_codes) auto
    show "c \<in> int ` {0..<length (snd (factorize xs))} \<union> (if Missing \<in> set xs then {- 1} else {})"
    proof (cases "x = Missing")
      case True
      with x show ?thesis by auto
    next
      case False
      with x have "index_of x (snd (factorize xs)) < length (snd (factorize xs))"
        by (simp add: index_of_less factorize_set)
      with x False show ?thesis by simp
    qed
  qed
  show "int ` {0..<length (snd (factorize xs))} \<union> (if Missing \<in> set xs then {- 1} else {})
      \<subseteq> set (fst (factorize xs))"
  proof
    fix c
    assume c: "c \<in> int ` {0..<length (snd (factorize xs))}
      \<union> (if Missing \<in> set xs then {- 1} else {})"
    show "c \<in> set (fst (factorize xs))"
    proof (cases "c \<in> int ` {0..<length (snd (factorize xs))}")
      case True
      then obtain k where k: "k < length (snd (factorize xs))" "c = int k" by auto
      then have "snd (factorize xs) ! k \<in> set (snd (factorize xs))" by simp
      then have mem: "snd (factorize xs) ! k \<in> set xs" "snd (factorize xs) ! k \<noteq> Missing"
        by (simp_all add: factorize_set)
      moreover have "index_of (snd (factorize xs) ! k) (snd (factorize xs)) = k"
        using k by (simp add: index_of_nth_distinct factorize_distinct)
      ultimately have "int k \<in> (\<lambda>x. if x = Missing then - 1
          else int (index_of x (snd (factorize xs)))) ` set xs"
        by force
      then show ?thesis
        using k by (subst factorize_codes) simp
    next
      case False
      with c have "Missing \<in> set xs" "c = - 1"
        by (auto split: if_splits)
      then have "c \<in> (\<lambda>x. if x = Missing then - 1
          else int (index_of x (snd (factorize xs)))) ` set xs"
        by force
      then show ?thesis
        by (subst factorize_codes) simp
    qed
  qed
qed

subsection \<open>The loop of \<open>get_group_counts_nb\<close>\<close>

lemma sum_list_take_update:
  "k < length xs \<Longrightarrow> sum_list (take (Suc k) (xs[k := v])) = sum_list (take k xs) + (v::int)"
  by (simp add: take_Suc_conv_app_nth)

lemma emit_ok:
  assumes "j s < length (result s)"
  shows "\<exists>s'. emit s = Inr s' \<and> length (result s') = length (result s) \<and> j s' = Suc (j s)
           \<and> prev_group s' = prev_group s \<and> run_count s' = 0
           \<and> sum_list (take (j s') (result s')) = sum_list (take (j s) (result s)) + run_count s"
  using assms by (simp add: emit_def sum_list_take_update)

lemma nb_body_decreasing:
  "groups ! i < prev_group s \<Longrightarrow> nb_body groups i s = Inl IncoherentGroupsError"
  by (simp add: nb_body_def)

lemma nb_body_step:
  assumes inv: "nb_inv groups i s" and i: "Suc i < length groups"
    and le: "prev_group s \<le> groups ! i"
  shows "\<exists>s'. nb_body groups i s = Inr s' \<and> nb_inv groups (Suc i) s'"
proof (cases "groups ! i \<noteq> prev_group s \<and> prev_group s \<noteq> - 1")
  case True
  from inv i have "j s < length (result s)" by (auto simp: nb_inv_def)
  from emit_ok [OF this] obtain s1 where s1: "emit s = Inr s1"
    "length (result s1) = length (result s)" "j s1 = Suc (j s)" "run_count s1 = 0"
    "sum_list (take (j s1) (result s1)) = sum_list (take (j s) (result s)) + run_count s"
    by blast
  have i0: "0 < i" using True inv by (cases i) (auto simp: nb_inv_def)
  have "nb_body groups i s = Inr (s1\<lparr>prev_group := groups ! i, run_count := 1\<rparr>)"
    using True le i s1 by (simp add: nb_body_def Let_def)
  moreover have "nb_inv groups (Suc i) (s1\<lparr>prev_group := groups ! i, run_count := 1\<rparr>)"
    using inv s1 i0 by (auto simp: nb_inv_def)
  ultimately show ?thesis by blast
next
  case False
  have "nb_body groups i s = Inr (s\<lparr>prev_group := groups ! i, run_count := run_count s + 1\<rparr>)"
    using False le i by (auto simp: nb_body_def Let_def)
  moreover have "nb_inv groups (Suc i) (s\<lparr>prev_group := groups ! i, run_count := run_count s + 1\<rparr>)"
    using inv by (auto simp: nb_inv_def)
  ultimately show ?thesis by blast
qed

lemma nb_body_last:
  assumes inv: "nb_inv groups i s" and i: "Suc i = length groups"
    and le: "prev_group s \<le> groups ! i"
  shows "\<exists>s'. nb_body groups i s = Inr s' \<and> nb_final groups s'"
proof (cases "groups ! i \<noteq> prev_group s \<and> prev_group s \<noteq> - 1")
  case True
  from inv i have "j s < length (result s)" by (auto simp: nb_inv_def)
  from emit_ok [OF this] obtain s1 where s1: "emit s = Inr s1"
    "length (result s1) = length (result s)" "j s1 = Suc (j s)" "run_count s1 = 0"
    "sum_list (take (j s1) (result s1)) = sum_list (take (j s) (result s)) + run_count s"
    by blast
  have i0: "0 < i" using True inv by (cases i) (auto simp: nb_inv_def)
  define s3 where "s3 = s1\<lparr>prev_group := groups ! i, run_count := 1\<rparr>"
  have "j s3 < length (result s3)"
    using inv s1 i i0 by (auto simp: s3_def nb_inv_def)
  from emit_ok [OF this] obtain s4 where s4: "emit s3 = Inr s4"
    "length (result s4) = length (result s3)" "j s4 = Suc (j s3)"
    "sum_list (take (j s4) (result s4)) = sum_list (take (j s3) (result s3)) + run_count s3"
    by blast
  have "nb_body groups i s = Inr s4"
    using True le i s1 s4 by (simp add: nb_body_def Let_def s3_def)
  moreover have "nb_final groups s4"
    using inv s1 s4 i i0 by (auto simp: nb_final_def nb_inv_def s3_def)
  ultimately show ?thesis by blast
next
  case False
  define s3 where "s3 = s\<lparr>prev_group := groups ! i, run_count := run_count s + 1\<rparr>"
  have "j s3 < length (result s3)"
    using inv i by (auto simp: s3_def nb_inv_def)
  from emit_ok [OF this] obtain s4 where s4: "emit s3 = Inr s4"
    "length (result s4) = length (result s3)" "j s4 = Suc (j s3)"
    "sum_list (take (j s4) (result s4)) = sum_list (take (j s3) (result s3)) + run_count s3"
    by blast
  have "groups ! i = prev_group s \<Longrightarrow> s\<lparr>run_count := run_count s + 1\<rparr> = s3"
    by (simp add: s3_def)
  then have "nb_body groups i s = Inr s4"
    using False le i s4 by (auto simp: nb_body_def Let_def s3_def [symmetric])
  moreover have "nb_final groups s4"
    using inv s4 i by (auto simp: nb_final_def nb_inv_def s3_def)
  ultimately show ?thesis by blast
qed


lemma nb_loop:
  assumes "nb_inv groups i s" and "i < length groups"
  shows "if (\<forall>k. i \<le> k \<and> k < length groups \<longrightarrow> (- 1 # groups) ! k \<le> groups ! k)
         then (\<exists>s'. for_range (nb_body groups) [i..<length groups] s = Inr s' \<and> nb_final groups s')
         else for_range (nb_body groups) [i..<length groups] s = Inl IncoherentGroupsError"
  using assms
proof (induction "length groups - i" arbitrary: i s)
  case 0
  then show ?case by simp
next
  case (Suc d)
  have upt: "[i..<length groups] = i # [Suc i..<length groups]"
    using Suc.prems(2) by (simp add: upt_conv_Cons)
  have prev: "prev_group s = (- 1 # groups) ! i"
    using Suc.prems(1) by (simp add: nb_inv_def)
  show ?case
  proof (cases "prev_group s \<le> groups ! i")
    case le: True
    show ?thesis
    proof (cases "Suc i < length groups")
      case True
      from nb_body_step [OF Suc.prems(1) True le] obtain s1
        where s1: "nb_body groups i s = Inr s1" "nb_inv groups (Suc i) s1" by blast
      have d: "d = length groups - Suc i" using Suc.hyps(2) by simp
      have eq: "(\<forall>k. i \<le> k \<and> k < length groups \<longrightarrow> (- 1 # groups) ! k \<le> groups ! k)
              \<longleftrightarrow> (\<forall>k. Suc i \<le> k \<and> k < length groups \<longrightarrow> (- 1 # groups) ! k \<le> groups ! k)"
      proof
        assume "\<forall>k. i \<le> k \<and> k < length groups \<longrightarrow> (- 1 # groups) ! k \<le> groups ! k"
        then show "\<forall>k. Suc i \<le> k \<and> k < length groups \<longrightarrow> (- 1 # groups) ! k \<le> groups ! k"
          by (meson Suc_leD)
      next
        assume r: "\<forall>k. Suc i \<le> k \<and> k < length groups \<longrightarrow> (- 1 # groups) ! k \<le> groups ! k"
        show "\<forall>k. i \<le> k \<and> k < length groups \<longrightarrow> (- 1 # groups) ! k \<le> groups ! k"
        proof (intro allI impI)
          fix k assume k: "i \<le> k \<and> k < length groups"
          show "(- 1 # groups) ! k \<le> groups ! k"
          proof (cases "k = i")
            case True
            then show ?thesis using le prev by simp
          next
            case False
            with k have "Suc i \<le> k \<and> k < length groups" by simp
            with r show ?thesis by blast
          qed
        qed
      qed
      have "for_range (nb_body groups) [i..<length groups] s
              = for_range (nb_body groups) [Suc i..<length groups] s1"
        by (subst upt) (simp add: s1)
      with Suc.hyps(1) [OF d s1(2) True] show ?thesis
        unfolding eq by simp
    next
      case False
      with Suc.prems(2) have last: "Suc i = length groups" by simp
      from nb_body_last [OF Suc.prems(1) last le] obtain s1
        where s1: "nb_body groups i s = Inr s1" "nb_final groups s1" by blast
      have all: "\<forall>k. i \<le> k \<and> k < length groups \<longrightarrow> (- 1 # groups) ! k \<le> groups ! k"
      proof (intro allI impI)
        fix k assume "i \<le> k \<and> k < length groups"
        with last have "k = i" by simp
        then show "(- 1 # groups) ! k \<le> groups ! k" using le prev by simp
      qed
      have "for_range (nb_body groups) [i..<length groups] s = Inr s1"
        by (subst upt) (simp add: s1 last [symmetric])
      with all s1(2) show ?thesis by simp
    qed
  next
    case False
    then have lt: "groups ! i < prev_group s" by simp
    have "\<not> (\<forall>k. i \<le> k \<and> k < length groups \<longrightarrow> (- 1 # groups) ! k \<le> groups ! k)"
      using lt prev Suc.prems(2) by (auto intro!: exI [of _ i])
    moreover have "for_range (nb_body groups) [i..<length groups] s = Inl IncoherentGroupsError"
      by (subst upt) (simp add: nb_body_decreasing [OF lt])
    ultimately show ?thesis by simp
  qed
qed

lemma nb_inv_init: "nb_inv groups 0 (nb_init (length groups))"
  by (simp add: nb_inv_def nb_init_def)

lemma sorted_Cons_nth:
  "sorted (- 1 # groups) \<longleftrightarrow>
     (\<forall>k. 0 \<le> k \<and> k < length groups \<longrightarrow> (- 1 # groups) ! k \<le> (groups ! k :: int))"
  by (subst sorted_iff_nth_Suc) simp

lemma get_group_counts_nb_sorted:
  assumes "sorted (- 1 # groups)"
  shows "\<exists>counts. get_group_counts_nb groups = Inr counts
           \<and> sum_list counts = int (length groups) \<and> length counts \<le> length groups"
proof (cases "groups = []")
  case True
  then show ?thesis by (simp add: get_group_counts_nb_def nb_init_def)
next
  case False
  then have pos: "0 < length groups" by simp
  from nb_loop [OF nb_inv_init pos] assms obtain s
    where s: "for_range (nb_body groups) [0..<length groups] (nb_init (length groups)) = Inr s"
      "nb_final groups s"
    unfolding sorted_Cons_nth by auto
  then show ?thesis
    by (simp add: get_group_counts_nb_def nb_final_def)
qed


subsection \<open>First-appearance order\<close>

lemma index_of_le_length: "index_of x ys \<le> length ys"
  by (induction ys) auto

lemma card_take_distinct:
  assumes "distinct us" and "k \<le> length us"
  shows "card (set (take k us)) = k"
proof -
  have "distinct (take k us)" using assms(1) by simp
  then have "card (set (take k us)) = length (take k us)" by (rule distinct_card)
  with assms(2) show ?thesis by simp
qed

lemma index_of_table_card:
  assumes "distinct us" and "Missing \<notin> set us" and "x \<in> set us \<union> set xs"
    and "x \<noteq> Missing"
  shows "index_of x (snd (factorize_from us xs))
           = card (set (take (index_of x (us @ xs)) (us @ xs)) - {Missing})"
  using assms
proof (induction xs arbitrary: us)
  case Nil
  have "set (take (index_of x us) us) - {Missing} = set (take (index_of x us) us)"
    using Nil.prems(2) by (auto dest: in_set_takeD)
  with Nil show ?case
    by (simp add: card_take_distinct index_of_le_length)
next
  case (Cons y ys)
  show ?case
  proof (cases "y = Missing \<or> y \<in> set us")
    case False
    with Cons.prems have "distinct (us @ [y])" and "Missing \<notin> set (us @ [y])"
      and "x \<in> set (us @ [y]) \<union> set ys"
      by auto
    from Cons.IH [OF this Cons.prems(4)] False show ?thesis
      by (simp add: factorize_from_Cons del: factorize_from.simps(2))
  next
    case True
    with Cons.prems have mem: "x \<in> set us \<union> set ys" by auto
    have IH: "index_of x (snd (factorize_from us ys))
                = card (set (take (index_of x (us @ ys)) (us @ ys)) - {Missing})"
      by (rule Cons.IH [OF Cons.prems(1,2) mem Cons.prems(4)])
    have "set (take (index_of x (us @ ys)) (us @ ys)) - {Missing}
            = set (take (index_of x (us @ y # ys)) (us @ y # ys)) - {Missing}"
    proof (cases "x \<in> set us")
      case True
      then have "index_of x us < length us" by (rule index_of_less)
      with True show ?thesis by (simp add: index_of_append_in)
    next
      case False
      with True Cons.prems(4) have "x \<noteq> y" by auto
      with False True show ?thesis
        by (auto simp: index_of_append_notin)
    qed
    with IH True show ?thesis
      by (simp add: factorize_from_Cons del: factorize_from.simps(2))
  qed
qed

lemma factorize_first_appearance: "fst (factorize xs) = first_appearance_ids xs"
proof -
  have "int (index_of x (snd (factorize xs)))
          = int (card (set (take (index_of x xs) xs) - {Missing}))"
    if "x \<in> set xs" and "x \<noteq> Missing" for x
    using index_of_table_card [of "[]" x xs] that by (simp add: factorize_def)
  then show ?thesis
    by (subst factorize_codes) (simp add: first_appearance_ids_def)
qed


lemma recurs_not_sorted:
  assumes "recurs ids"
  shows "\<not> sorted ids"
proof
  assume s: "sorted ids"
  from assms obtain p q r where pqr: "p < q" "q < r" "r < length ids"
    "ids ! q \<noteq> ids ! p" "ids ! r = ids ! p"
    by (auto simp: recurs_def)
  have "ids ! p \<le> ids ! q"
    using sorted_nth_mono [OF s, of p q] pqr by simp
  moreover have "ids ! q \<le> ids ! r"
    using sorted_nth_mono [OF s, of q r] pqr by simp
  ultimately show False using pqr by simp
qed


subsection \<open>Prefix sums\<close>

lemma cumsum_from_length: "length (cumsum_from a xs) = length xs"
  by (induction xs arbitrary: a) auto

lemma cumsum_from_nth:
  "k < length xs \<Longrightarrow> cumsum_from a xs ! k = a + sum_list (take (Suc k) xs)"
proof (induction xs arbitrary: a k)
  case Nil
  then show ?case by simp
next
  case (Cons x xs)
  then show ?case by (cases k) auto
qed

lemma end_idxs_length: "length (end_idxs cs) = length cs"
  by (simp add: end_idxs_def cumsum_def cumsum_from_length)

lemma end_idxs_nth: "k < length cs \<Longrightarrow> end_idxs cs ! k = sum_list (take (Suc k) cs)"
  by (simp add: end_idxs_def cumsum_def cumsum_from_nth)

lemma start_idxs_length: "length (start_idxs cs) = length cs"
  by (simp add: start_idxs_def array_sub_def cumsum_def cumsum_from_length)

lemma start_idxs_nth: "k < length cs \<Longrightarrow> start_idxs cs ! k = sum_list (take k cs)"
  by (simp add: start_idxs_def array_sub_def cumsum_def cumsum_from_length cumsum_from_nth
      take_Suc_conv_app_nth)

subsection \<open>Normalization and the policy\<close>

lemma group_by_to_index_simps:
  "group_by_to_index sl index GNone = Inr GNone"
  "group_by_to_index sl index (GBool b) = Inr (GBool b)"
  "group_by_to_index sl index (GIndex gx) =
     (if length (vals gx) \<noteq> length (vals index) then Inl LengthMismatch else Inr (GIndex gx))"
  "group_by_to_index sl index (GArray xs) =
     (if length xs \<noteq> length (vals index) then Inl LengthMismatch
      else Inr (GIndex (pd_Index xs)))"
  by (simp_all add: group_by_to_index_def is_none_or_bool_def mapper_to_index_def
      check_same_length_def pd_Index_def)

lemma is_grouping_modified_simps:
  "is_grouping_modified sl g GNone = Inr False"
  "is_grouping_modified sl g (GBool b) = Inr False"
  by (simp_all add: is_grouping_modified_def group_by_to_index_simps)

lemma is_grouped_simps:
  "is_grouped g GNone \<longleftrightarrow> group_by g \<noteq> None"
  "is_grouped g (GBool b) \<longleftrightarrow> b \<and> group_by g \<noteq> None"
  "is_grouped g (GSelect s)"
  "is_grouped g (GIndex gx)"
  "is_grouped g (GArray xs)"
  by (simp_all add: is_grouped_def split: bool.splits)

lemma ColumnGrouper_init_ok:
  assumes "ColumnGrouper_init sl cols_arg gb ae ad am = Inr g"
  shows "grouper_ok g"
  using assms
  by (auto simp: ColumnGrouper_init_def grouper_ok_def group_by_to_index_def stored_def
      mapper_to_index_def check_same_length_def
      split: option.splits if_splits sum.splits)

lemma check_group_by_self:
  assumes "grouper_ok g"
  shows "check_group_by sl g (self_group_by g) kw = Inr ()"
proof (cases "group_by g")
  case None
  then show ?thesis
    by (simp add: check_group_by_def self_group_by_def is_grouping_enabled_def
        is_grouping_disabled_def is_grouped_simps is_grouping_modified_simps Let_def)
next
  case (Some bx)
  with assms have len: "length (vals bx) = length (vals (columns g))"
    by (simp add: grouper_ok_def)
  have "is_grouping_modified sl g (GIndex bx) = Inr False"
    using Some len
    by (simp add: is_grouping_modified_def group_by_to_index_simps pd_Index_equals_def)
  with Some show ?thesis
    by (simp add: check_group_by_def self_group_by_def is_grouping_enabled_def
        is_grouping_disabled_def is_grouped_simps Let_def)
qed

lemma substitute_group_by_simps:
  "substitute_group_by g GNone = self_group_by g"
  "substitute_group_by g (GBool True) = self_group_by g"
  "substitute_group_by g (GBool False) = (if group_by g = None then GNone else GBool False)"
  "substitute_group_by g (GSelect s) = GSelect s"
  "substitute_group_by g (GIndex gx) = GIndex gx"
  "substitute_group_by g (GArray xs) = GArray xs"
  by (simp_all add: substitute_group_by_def self_group_by_def split: option.splits)

lemma substitute_group_by_self: "substitute_group_by g (self_group_by g) = self_group_by g"
  by (simp add: substitute_group_by_def self_group_by_def split: option.splits)

lemma group_by_to_index_self:
  assumes "grouper_ok g"
  shows "group_by_to_index sl (columns g) (self_group_by g) = Inr (self_group_by g)"
proof (cases "group_by g")
  case None
  then show ?thesis by (simp add: self_group_by_def group_by_to_index_simps)
next
  case (Some bx)
  with assms show ?thesis
    by (simp add: self_group_by_def grouper_ok_def group_by_to_index_simps)
qed

subsection \<open>Factorization of a normalized label sequence\<close>

lemma is_none_or_bool_simps:
  "is_none_or_bool GNone" "is_none_or_bool (GBool b)" "\<not> is_none_or_bool (GSelect s)"
  "\<not> is_none_or_bool (GIndex gx)" "\<not> is_none_or_bool (GArray xs)"
  by (simp_all add: is_none_or_bool_def)

lemma is_none_or_bool_cases:
  "is_none_or_bool gb \<longleftrightarrow> gb = GNone \<or> gb = GBool True \<or> gb = GBool False"
  by (cases gb) (auto simp: is_none_or_bool_def)

lemma get_groups_and_index_absent:
  "is_none_or_bool gb \<Longrightarrow>
     get_groups_and_index sl cols gb = Inr (map int [0..<length (vals cols)], cols)"
  by (simp add: get_groups_and_index_def arange_def)

lemma get_groups_and_index_labels:
  assumes "\<not> is_none_or_bool gb" and "coerce_mapper sl cols gb = Inr gx"
  shows "get_groups_and_index sl cols gb =
     (if length (vals gx) \<noteq> length (vals cols) then Inl LengthMismatch
      else if \<not> sorted (fst (factorize (vals gx))) then Inl IncoherentGroupsError
      else Inr (fst (factorize (vals gx)),
                \<lparr>vals = snd (factorize (vals gx)), names = names gx\<rparr>))"
  using assms
  by (simp add: get_groups_and_index_def group_by_to_index_def mapper_to_index_def
      check_same_length_def case_prod_beta is_sorted_iff_sorted pd_Index_def)

lemma sorted_arange: "sorted (map int [0..<n])"
  by (simp add: sorted_iff_nth_mono)

lemma sorted_nonneg_Cons:
  assumes "sorted G" and "\<forall>g\<in>set G. 0 \<le> (g::int)"
  shows "sorted (- 1 # G)"
  using assms by fastforce

lemma not_sorted_Cons: "\<not> sorted G \<Longrightarrow> \<not> sorted ((- 1 :: int) # G)"
  by simp

subsection \<open>No grouping\<close>

lemma substitute_group_by_not_True: "substitute_group_by g gb \<noteq> GBool True"
proof (cases gb)
  case (GBool b)
  then show ?thesis
    by (cases b) (simp_all add: substitute_group_by_simps self_group_by_def split: option.splits)
qed (simp_all add: substitute_group_by_simps self_group_by_def split: option.splits)

lemma resolve_group_by_absent:
  assumes "resolve_group_by sl g gb kw = Inr r" and "is_none_or_bool r"
  shows "r = GNone \<or> r = GBool False"
proof -
  from assms(1) have r: "group_by_to_index sl (columns g) (substitute_group_by g gb) = Inr r"
    by (simp add: resolve_group_by_def Let_def split: sum.splits)
  have "r = substitute_group_by g gb"
  proof (cases "is_none_or_bool (substitute_group_by g gb)")
    case True
    with r show ?thesis by (simp add: group_by_to_index_def)
  next
    case False
    with r assms(2) show ?thesis
      by (auto simp: group_by_to_index_def is_none_or_bool_simps split: sum.splits)
  qed
  with assms(2) substitute_group_by_not_True [of g gb] show ?thesis
    by (auto simp: is_none_or_bool_cases)
qed

lemma resolve_group_by_ungrouped:
  assumes "group_by g = None" and "is_none_or_bool gb"
  shows "resolve_group_by sl g gb kw = Inr GNone"
proof -
  have sub: "substitute_group_by g gb = GNone"
    using assms by (auto simp: is_none_or_bool_cases substitute_group_by_simps self_group_by_def)
  have "check_group_by sl g GNone kw = Inr ()"
    by (auto simp: is_grouping_enabled_def is_grouping_disabled_def is_grouped_simps
        is_grouping_modified_simps check_group_by_def Let_def)
  then show ?thesis
    by (simp add: resolve_group_by_def sub group_by_to_index_simps)
qed

lemma start_idxs_ones: "start_idxs (replicate n 1) = map int [0..<n]"
  by (rule nth_equalityI) (simp_all add: start_idxs_length start_idxs_nth sum_list_replicate)

lemma end_idxs_ones: "end_idxs (replicate n 1) = map int [1..<Suc n]"
proof (rule nth_equalityI)
  show "length (end_idxs (replicate n 1)) = length (map int [1..<Suc n])"
    by (simp add: end_idxs_length)
  fix k assume "k < length (end_idxs (replicate n 1))"
  then have k: "k < n" by (simp add: end_idxs_length)
  then have "min n (Suc k) = Suc k" by simp
  with k show "end_idxs (replicate n 1) ! k = map int [1..<Suc n] ! k"
    by (simp add: end_idxs_nth sum_list_replicate del: upt_Suc)
qed

subsection \<open>Offsets of the counts\<close>

lemma getlast_end_idxs:
  assumes "cs \<noteq> []"
  shows "getlast (end_idxs cs) = Some (sum_list cs)"
proof -
  have ne: "end_idxs cs \<noteq> []"
    using assms end_idxs_length [of cs] by auto
  have "last (end_idxs cs) = end_idxs cs ! (length cs - 1)"
    using ne by (simp add: last_conv_nth end_idxs_length)
  also have "\<dots> = sum_list (take (Suc (length cs - 1)) cs)"
    using assms by (simp add: end_idxs_nth)
  also have "\<dots> = sum_list cs"
    using assms by simp
  finally show ?thesis using ne by (simp add: getlast_def)
qed

lemma getitem_start_idxs_0:
  assumes "cs \<noteq> []"
  shows "getitem (start_idxs cs) 0 = Some 0"
  using assms by (simp add: getitem_def start_idxs_length start_idxs_nth)

lemma end_minus_start:
  assumes "k < length cs"
  shows "end_idxs cs ! k - start_idxs cs ! k = cs ! k"
  using assms by (simp add: end_idxs_nth start_idxs_nth take_Suc_conv_app_nth)

subsection \<open>Errors of the modification test\<close>

lemma mapper_to_index_errors:
  "mapper_to_index sl cols gb = Inl e \<Longrightarrow> e \<in> {LevelError, TypeError, LengthMismatch}"
  by (cases gb)
     (auto simp: mapper_to_index_def check_same_length_def split: option.splits if_splits)

lemma get_groups_and_index_errors:
  "get_groups_and_index sl cols gb = Inl e \<Longrightarrow>
     e \<in> {LevelError, TypeError, LengthMismatch, IncoherentGroupsError}"
  using mapper_to_index_errors [of sl cols gb]
  by (auto simp: get_groups_and_index_def group_by_to_index_def case_prod_beta Let_def
      split: if_splits sum.splits)

lemma group_by_to_index_errors:
  "group_by_to_index sl cols gb = Inl e \<Longrightarrow> e \<in> {LevelError, TypeError, LengthMismatch}"
  using mapper_to_index_errors [of sl cols gb]
  by (auto simp: group_by_to_index_def split: if_splits sum.splits)

lemma is_grouping_modified_errors:
  assumes "is_grouping_modified sl g gb = Inl e"
  shows "e \<in> {LevelError, TypeError, LengthMismatch, IncoherentGroupsError}"
proof (cases "group_by_to_index sl (columns g) gb")
  case (Inl e')
  with assms group_by_to_index_errors [of sl "columns g" gb e'] show ?thesis
    by (auto simp: is_grouping_modified_def)
next
  case (Inr gb')
  show ?thesis
  proof (cases gb')
    case (GIndex gx)
    show ?thesis
    proof (cases "group_by g")
      case None
      with assms Inr GIndex show ?thesis by (simp add: is_grouping_modified_def)
    next
      case (Some bx)
      show ?thesis
      proof (cases "get_groups_and_index sl (columns g) (GIndex gx)")
        case e1: (Inl e1)
        with assms Inr GIndex Some get_groups_and_index_errors [OF e1] show ?thesis
          by (auto simp: is_grouping_modified_def split: if_splits)
      next
        case r1: (Inr r1)
        show ?thesis
        proof (cases "get_groups_and_index sl (columns g) (GIndex bx)")
          case e2: (Inl e2)
          with assms Inr GIndex Some r1 get_groups_and_index_errors [OF e2] show ?thesis
            by (auto simp: is_grouping_modified_def case_prod_beta split: if_splits)
        next
          case r2: (Inr r2)
          with assms Inr GIndex Some r1 show ?thesis
            by (auto simp: is_grouping_modified_def case_prod_beta split: if_splits)
        qed
      qed
    qed
  qed (use assms Inr in \<open>simp_all add: is_grouping_modified_def\<close>)
qed

lemma is_grouping_modified_True_iff:
  "is_grouping_modified sl g gb = Inr True \<longleftrightarrow>
     (\<exists>gx bx groups1 ix1 groups2 ix2.
        group_by_to_index sl (columns g) gb = Inr (GIndex gx) \<and> group_by g = Some bx
        \<and> vals gx \<noteq> vals bx
        \<and> get_groups_and_index sl (columns g) (GIndex gx) = Inr (groups1, ix1)
        \<and> get_groups_and_index sl (columns g) (GIndex bx) = Inr (groups2, ix2)
        \<and> groups1 \<noteq> groups2)"
  by (auto simp: is_grouping_modified_def pd_Index_equals_def
      split: sum.splits group_by.splits option.splits if_splits)

lemma is_grouping_modified_True_grouped:
  assumes "is_grouping_modified sl g gb = Inr True"
  shows "group_by g \<noteq> None \<and> is_grouped g gb"
proof -
  from assms obtain gx bx where
    a: "group_by_to_index sl (columns g) gb = Inr (GIndex gx)" "group_by g = Some bx"
    unfolding is_grouping_modified_True_iff by blast
  from a(1) have "\<not> is_none_or_bool gb"
    by (auto simp: group_by_to_index_def is_none_or_bool_simps split: if_splits)
  then have "is_grouped g gb"
    by (cases gb) (simp_all add: is_grouped_simps is_none_or_bool_simps)
  with a(2) show ?thesis by simp
qed


subsection \<open>The examples of the specification\<close>

lemma factorize_examples:
  "factorize aab = ([0, 0, 1], [Label ''a'', Label ''b''])"
  "factorize xxy = ([0, 0, 1], [Label ''x'', Label ''y''])"
  "factorize abb = ([0, 1, 1], [Label ''a'', Label ''b''])"
  "factorize aba = ([0, 1, 0], [Label ''a'', Label ''b''])"
  by (simp_all add: factorize_def aab_def xxy_def abb_def aba_def)

lemma get_groups_and_index_examples:
  assumes "length (vals cols) = 3"
  shows "get_groups_and_index sl cols (GIndex \<lparr>vals = aab, names = ns\<rparr>)
           = Inr ([0, 0, 1], \<lparr>vals = [Label ''a'', Label ''b''], names = ns\<rparr>)"
    and "get_groups_and_index sl cols (GIndex \<lparr>vals = xxy, names = ns\<rparr>)
           = Inr ([0, 0, 1], \<lparr>vals = [Label ''x'', Label ''y''], names = ns\<rparr>)"
    and "get_groups_and_index sl cols (GIndex \<lparr>vals = abb, names = ns\<rparr>)
           = Inr ([0, 1, 1], \<lparr>vals = [Label ''a'', Label ''b''], names = ns\<rparr>)"
    and "get_groups_and_index sl cols (GIndex \<lparr>vals = aba, names = ns\<rparr>)
           = Inl IncoherentGroupsError"
  using assms
  by (simp_all add: get_groups_and_index_labels is_none_or_bool_simps factorize_examples)
     (simp_all add: aab_def xxy_def abb_def aba_def)

lemma get_group_counts_nb_001: "get_group_counts_nb [0, 0, 1] = Inr [2, 1]"
  by code_simp

lemma offsets_21: "start_idxs [2, 1] = [0, 2]" "end_idxs [2, 1] = [2, 3]"
  by (simp_all add: start_idxs_def end_idxs_def cumsum_def array_sub_def)

subsection \<open>The permission check\<close>

lemma check_group_by_Enable_iff:
  "check_group_by sl g gb kw = Inl (PermissionError Enable) \<longleftrightarrow>
     \<not> or_default (kw_allow_enable kw) (allow_enable g) \<and> is_grouping_enabled g gb"
  using is_grouping_modified_errors [of sl g gb "PermissionError Enable"]
  by (auto simp: check_group_by_def Let_def split: sum.splits bool.splits)

lemma check_group_by_Disable_iff:
  "check_group_by sl g gb kw = Inl (PermissionError Disable) \<longleftrightarrow>
     \<not> or_default (kw_allow_disable kw) (allow_disable g) \<and> is_grouping_disabled g gb"
  using is_grouping_modified_errors [of sl g gb "PermissionError Disable"]
  by (auto simp: check_group_by_def Let_def is_grouping_enabled_def is_grouping_disabled_def
      split: sum.splits bool.splits)

lemma check_group_by_Modify_iff:
  "check_group_by sl g gb kw = Inl (PermissionError Modify) \<longleftrightarrow>
     \<not> or_default (kw_allow_modify kw) (allow_modify g)
     \<and> is_grouping_modified sl g gb = Inr True"
  using is_grouping_modified_errors [of sl g gb "PermissionError Modify"]
    is_grouping_modified_True_grouped [of sl g gb]
  by (auto simp: check_group_by_def Let_def is_grouping_enabled_def is_grouping_disabled_def
      split: sum.splits bool.splits)

lemma enable_refused:
  assumes "group_by g = None" and "\<not> allow_enable g" and "kw_allow_enable kw = None"
    and "\<not> is_none_or_bool gb"
  shows "check_group_by sl g gb kw = Inl (PermissionError Enable)"
    and "resolve_group_by sl g gb kw = Inl (PermissionError Enable)"
    and "get_groups_and_columns sl g gb kw = Inl (PermissionError Enable)"
    and "get_group_counts sl g gb kw = Inl (PermissionError Enable)"
    and "get_group_start_idxs sl g gb kw = Inl (PermissionError Enable)"
    and "get_group_end_idxs sl g gb kw = Inl (PermissionError Enable)"
proof -
  have grouped: "is_grouped g gb"
    using assms(4) by (cases gb) (simp_all add: is_grouped_simps is_none_or_bool_simps)
  have sub: "substitute_group_by g gb = gb"
    using assms(4) by (cases gb) (simp_all add: substitute_group_by_simps is_none_or_bool_simps)
  show c: "check_group_by sl g gb kw = Inl (PermissionError Enable)"
    using assms grouped
    by (simp add: check_group_by_Enable_iff or_default_def is_grouping_enabled_def)
  then show r: "resolve_group_by sl g gb kw = Inl (PermissionError Enable)"
    by (simp add: resolve_group_by_def sub)
  then show "get_groups_and_columns sl g gb kw = Inl (PermissionError Enable)"
    by (simp add: get_groups_and_columns_def)
  from r show n: "get_group_counts sl g gb kw = Inl (PermissionError Enable)"
    by (simp add: get_group_counts_def)
  then show "get_group_start_idxs sl g gb kw = Inl (PermissionError Enable)"
    and "get_group_end_idxs sl g gb kw = Inl (PermissionError Enable)"
    by (simp_all add: get_group_start_idxs_def get_group_end_idxs_def)
qed

lemma enable_allowed_aab:
  assumes "group_by g = None" and "allow_enable g" and "length (vals (columns g)) = 3"
  shows "get_group_counts sl g (GArray aab) no_flags = Inr [2, 1]"
    and "get_group_start_idxs sl g (GArray aab) no_flags = Inr [0, 2]"
    and "get_group_end_idxs sl g (GArray aab) no_flags = Inr [2, 3]"
proof -
  have len: "length aab = 3" by (simp add: aab_def)
  have m: "is_grouping_modified sl g (GArray aab) = Inr False"
    using assms len by (simp add: is_grouping_modified_def group_by_to_index_simps)
  have c: "check_group_by sl g (GArray aab) no_flags = Inr ()"
    using assms m
    by (simp add: check_group_by_def Let_def no_flags_def or_default_def
        is_grouping_disabled_def)
  have r: "resolve_group_by sl g (GArray aab) no_flags = Inr (GIndex (pd_Index aab))"
    using assms len c
    by (simp add: resolve_group_by_def substitute_group_by_simps group_by_to_index_simps)
  have "get_groups sl g (GArray aab) no_flags = Inr [0, 0, 1]"
    using assms r
    by (simp add: get_groups_def get_groups_and_columns_def pd_Index_def
        get_groups_and_index_examples)
  with r show n: "get_group_counts sl g (GArray aab) no_flags = Inr [2, 1]"
    by (simp add: get_group_counts_def get_group_counts_nb_001)
  then show "get_group_start_idxs sl g (GArray aab) no_flags = Inr [0, 2]"
    and "get_group_end_idxs sl g (GArray aab) no_flags = Inr [2, 3]"
    by (simp_all add: get_group_start_idxs_def get_group_end_idxs_def offsets_21)
qed

lemma modified_abb:
  "is_grouping_modified no_levels (grouped_aab ae ad am) (GArray abb) = Inr True"
proof -
  have "abb \<noteq> aab" "length abb = 3" "length (vals abc_columns) = 3"
    by (simp_all add: abb_def aab_def abc_columns_def pd_Index_def)
  then show ?thesis
    by (simp add: is_grouping_modified_def group_by_to_index_simps pd_Index_equals_def
        pd_Index_def grouped_aab_def get_groups_and_index_examples)
qed

subsection \<open>What a successful factorization returns\<close>

lemma get_groups_and_index_Inr_labels:
  assumes "get_groups_and_index sl cols gb = Inr (groups, ix)" and "\<not> is_none_or_bool gb"
  shows "\<exists>gx. coerce_mapper sl cols gb = Inr gx \<and> length (vals gx) = length (vals cols)
           \<and> sorted (fst (factorize (vals gx)))
           \<and> groups = fst (factorize (vals gx))
           \<and> ix = \<lparr>vals = snd (factorize (vals gx)), names = names gx\<rparr>"
proof (cases "coerce_mapper sl cols gb")
  case (Inl e)
  with assms show ?thesis
    by (simp add: get_groups_and_index_def group_by_to_index_def mapper_to_index_def)
next
  case (Inr gx)
  from assms(1) show ?thesis
    unfolding get_groups_and_index_labels [OF assms(2) Inr]
    by (auto simp: Inr split: if_splits)
qed

lemma set_arange: "set (map int [0..<n]) = int ` {0..<n}"
  by simp

subsection \<open>Missing labels\<close>

lemma index_at_nonneg:
  assumes "0 \<le> i" and "nat i < length a"
  shows "index_at a i = Some (a ! nat i)"
  using assms by (simp add: index_at_def Let_def)

lemma factorize_naa: "factorize naa = ([- 1, 0, 0], [Label ''a''])"
  by (simp add: factorize_def naa_def)

lemma get_groups_and_index_naa:
  assumes "length (vals cols) = 3"
  shows "get_groups_and_index sl cols (GArray naa)
           = Inr ([- 1, 0, 0], \<lparr>vals = [Label ''a''], names = [None]\<rparr>)"
  using assms
  by (simp add: get_groups_and_index_labels is_none_or_bool_simps pd_Index_def factorize_naa)
     (simp add: naa_def)

lemma check_group_by_unrestricted:
  assumes "or_default (kw_allow_enable kw) (allow_enable g)"
    and "or_default (kw_allow_disable kw) (allow_disable g)"
    and "or_default (kw_allow_modify kw) (allow_modify g)"
  shows "check_group_by sl g gb kw = Inr ()"
  using assms by (simp add: check_group_by_def Let_def)

subsection \<open>Incoherent ids\<close>



lemma no_missing_after_label: "Missing \<notin> set xs \<Longrightarrow> \<not> missing_after_label xs"
  unfolding missing_after_label_def by (metis lessThan_iff nth_mem)

section \<open>The claims\<close>

text \<open>
  C10. For every grouper, whatever its baseline and its permission flags, and whatever
  flags the call overrides, the default request (candidate absent) is never reported as
  a change: \<open>is_grouping_enabled\<close>, \<open>is_grouping_disabled\<close> and \<open>is_grouping_modified\<close>
  are false, so \<open>is_grouping_changed\<close> is false, and \<open>check_group_by\<close> does not raise.
\<close>

theorem default_request_is_no_change:
  "\<not> is_grouping_enabled g GNone \<and> \<not> is_grouping_disabled g GNone
     \<and> is_grouping_modified sl g GNone = Inr False
     \<and> is_grouping_changed sl g GNone = Inr False
     \<and> check_group_by sl g GNone kw = Inr ()"
  by (simp add: is_grouping_enabled_def is_grouping_disabled_def is_grouped_simps
      is_grouping_modified_simps is_grouping_changed_def check_group_by_def Let_def)

theorem default_request_is_no_change_witness:
  "\<not> is_grouping_enabled (grouped_aab False False False) GNone
     \<and> \<not> is_grouping_disabled (grouped_aab False False False) GNone
     \<and> is_grouping_modified no_levels (grouped_aab False False False) GNone = Inr False
     \<and> is_grouping_changed no_levels (grouped_aab False False False) GNone = Inr False
     \<and> check_group_by no_levels (grouped_aab False False False) GNone no_flags = Inr ()"
  by (rule default_request_is_no_change)

text \<open>
  C9. For every column set and every explicit grouping specification (one that is neither
  \<open>None\<close> nor a \<open>bool\<close>) whose expansion and coercion yields the label sequence \<open>gx\<close>,
  \<open>group_by_to_index\<close> fails with \<open>LengthMismatch\<close> exactly when the length of \<open>gx\<close>
  differs from the number of columns, and returns \<open>gx\<close> unchanged when the lengths agree.
\<close>

theorem group_by_to_index_length:
  assumes "\<not> is_none_or_bool gb" and "coerce_mapper sl cols gb = Inr gx"
  shows "(group_by_to_index sl cols gb = Inl LengthMismatch
            \<longleftrightarrow> length (vals gx) \<noteq> length (vals cols))
         \<and> (length (vals gx) = length (vals cols)
            \<longrightarrow> group_by_to_index sl cols gb = Inr (GIndex gx))"
  using assms
  by (simp add: group_by_to_index_def mapper_to_index_def check_same_length_def)

theorem group_by_to_index_length_witness:
  "\<not> is_none_or_bool (GArray aab) \<and> coerce_mapper no_levels abc_columns (GArray aab) = Inr (pd_Index aab)
     \<and> length (vals (pd_Index aab)) = length (vals abc_columns)
     \<and> group_by_to_index no_levels abc_columns (GArray aab) = Inr (GIndex (pd_Index aab))
     \<and> coerce_mapper no_levels abc_columns (GArray [Label ''a'']) = Inr (pd_Index [Label ''a''])
     \<and> group_by_to_index no_levels abc_columns (GArray [Label ''a'']) = Inl LengthMismatch"
proof -
  have h1: "\<not> is_none_or_bool (GArray aab)" and h1': "\<not> is_none_or_bool (GArray [Label ''a''])"
    by (simp_all add: is_none_or_bool_def)
  have h2: "coerce_mapper no_levels abc_columns (GArray aab) = Inr (pd_Index aab)"
    and h2': "coerce_mapper no_levels abc_columns (GArray [Label ''a'']) = Inr (pd_Index [Label ''a''])"
    by simp_all
  have h3: "length (vals (pd_Index aab)) = length (vals abc_columns)"
    and h3': "length (vals (pd_Index [Label ''a''])) \<noteq> length (vals abc_columns)"
    by (simp_all add: pd_Index_def aab_def abc_columns_def)
  from group_by_to_index_length [OF h1 h2] group_by_to_index_length [OF h1' h2'] h1 h2 h2' h3 h3'
  show ?thesis by simp
qed

text \<open>
  C2. With no grouping, that is whenever \<open>resolve_group_by\<close> returns \<open>None\<close> or a
  \<open>bool\<close>, a grouper over \<open>C\<close> columns returns the group ids \<open>[0, ..., C - 1]\<close> with the
  columns themselves as the group index, \<open>C\<close> ones as the group counts, the start
  offsets \<open>[0, ..., C - 1]\<close> and the end offsets \<open>[1, ..., C]\<close>. This is the case of every
  grouper without a baseline when the candidate is \<open>None\<close> or a \<open>bool\<close>; and
  \<open>get_groups_and_index\<close> itself returns the identity ids and the index it was given
  for such a candidate.
\<close>

theorem no_grouping_identity:
  "(is_none_or_bool gb' \<longrightarrow>
      get_groups_and_index sl cols gb' = Inr (map int [0..<length (vals cols)], cols))
   \<and> (group_by g = None \<and> is_none_or_bool gb \<longrightarrow> resolve_group_by sl g gb kw = Inr GNone)
   \<and> (resolve_group_by sl g gb kw = Inr r \<and> is_none_or_bool r \<longrightarrow>
        get_groups_and_columns sl g gb kw
          = Inr (map int [0..<length (vals (columns g))], columns g)
        \<and> get_group_counts sl g gb kw = Inr (replicate (length (vals (columns g))) 1)
        \<and> get_group_start_idxs sl g gb kw = Inr (map int [0..<length (vals (columns g))])
        \<and> get_group_end_idxs sl g gb kw = Inr (map int [1..<Suc (length (vals (columns g)))]))"
proof (intro conjI impI)
  assume "is_none_or_bool gb'"
  then show "get_groups_and_index sl cols gb' = Inr (map int [0..<length (vals cols)], cols)"
    by (rule get_groups_and_index_absent)
next
  assume "group_by g = None \<and> is_none_or_bool gb"
  then show "resolve_group_by sl g gb kw = Inr GNone"
    by (simp add: resolve_group_by_ungrouped)
next
  assume a: "resolve_group_by sl g gb kw = Inr r \<and> is_none_or_bool r"
  then have r: "r = GNone \<or> r = GBool False"
    using resolve_group_by_absent by blast
  from a show "get_groups_and_columns sl g gb kw
          = Inr (map int [0..<length (vals (columns g))], columns g)"
    by (simp add: get_groups_and_columns_def get_groups_and_index_absent)
  from a r show counts:
    "get_group_counts sl g gb kw = Inr (replicate (length (vals (columns g))) 1)"
    by (auto simp: get_group_counts_def full_ones_def)
  from counts show
    "get_group_start_idxs sl g gb kw = Inr (map int [0..<length (vals (columns g))])"
    by (simp add: get_group_start_idxs_def start_idxs_ones)
  from counts show
    "get_group_end_idxs sl g gb kw = Inr (map int [1..<Suc (length (vals (columns g)))])"
    by (simp add: get_group_end_idxs_def end_idxs_ones)
qed

theorem no_grouping_identity_witness:
  "is_none_or_bool (GNone :: string group_by)
   \<and> group_by (ungrouped True True True) = None
   \<and> resolve_group_by no_levels (ungrouped True True True) GNone no_flags = Inr GNone
   \<and> get_groups_and_index no_levels abc_columns GNone = Inr ([0, 1, 2], abc_columns)
   \<and> get_groups_and_columns no_levels (ungrouped True True True) GNone no_flags
        = Inr ([0, 1, 2], abc_columns)
   \<and> get_group_counts no_levels (ungrouped True True True) GNone no_flags = Inr [1, 1, 1]
   \<and> get_group_start_idxs no_levels (ungrouped True True True) GNone no_flags = Inr [0, 1, 2]
   \<and> get_group_end_idxs no_levels (ungrouped True True True) GNone no_flags = Inr [1, 2, 3]"
proof -
  have h1: "is_none_or_bool (GNone :: string group_by)"
    by (simp add: is_none_or_bool_def)
  have h2: "group_by (ungrouped True True True) = None"
    by (simp add: ungrouped_def)
  have c: "columns (ungrouped True True True) = abc_columns"
    by (simp add: ungrouped_def)
  have e: "map int [0..<length (vals abc_columns)] = [0, 1, 2]"
    "map int [1..<Suc (length (vals abc_columns))] = [1, 2, 3]"
    "replicate (length (vals abc_columns)) (1::int) = [1, 1, 1]"
    by (simp_all add: abc_columns_def pd_Index_def upt_rec)
  from no_grouping_identity
    [of GNone no_levels abc_columns "ungrouped True True True" GNone no_flags GNone] h1 h2
  show ?thesis
    unfolding c e by blast
qed

text \<open>
  C3, as the code has it. For every non-decreasing array \<open>G\<close> of group ids (integers
  from 0 on), \<open>get_group_counts_nb\<close> returns counts whose sum is the length of \<open>G\<close>; the
  start and end offsets have one entry per count, and for every group \<open>k\<close> the end offset
  minus the start offset is the count of \<open>k\<close>. When \<open>G\<close> is not empty, the first start
  offset is 0 and the last end offset is the length of \<open>G\<close>. When \<open>G\<close> is empty there is
  no group: the counts and both offset arrays are empty, and reading \<open>starts[0]\<close> or the
  last end offset raises.
\<close>

theorem group_counts_and_offsets:
  assumes "sorted G" and "\<forall>g\<in>set G. 0 \<le> g"
  shows "\<exists>counts. get_group_counts_nb G = Inr counts
           \<and> sum_list counts = int (length G)
           \<and> length (start_idxs counts) = length counts
           \<and> length (end_idxs counts) = length counts
           \<and> (\<forall>k<length counts. end_idxs counts ! k - start_idxs counts ! k = counts ! k)
           \<and> (G \<noteq> [] \<longrightarrow> getitem (start_idxs counts) 0 = Some 0
                          \<and> getlast (end_idxs counts) = Some (int (length G)))
           \<and> (G = [] \<longrightarrow> counts = [] \<and> start_idxs counts = [] \<and> end_idxs counts = [])"
proof -
  from assms have "sorted (- 1 # G)" by (rule sorted_nonneg_Cons)
  from get_group_counts_nb_sorted [OF this] obtain counts
    where c: "get_group_counts_nb G = Inr counts" "sum_list counts = int (length G)"
      "length counts \<le> length G"
    by blast
  have ne: "counts \<noteq> []" if "G \<noteq> []"
    using that c(2) by auto
  have empty: "counts = []" if "G = []"
    using that c(3) by simp
  have "start_idxs [] = []" "end_idxs [] = []"
    by (simp_all add: start_idxs_def end_idxs_def cumsum_def array_sub_def)
  with c ne empty show ?thesis
    by (auto simp: start_idxs_length end_idxs_length end_minus_start getitem_start_idxs_0
        getlast_end_idxs)
qed

theorem group_counts_and_offsets_witness:
  "sorted [0, 0, 1 :: int] \<and> [0, 0, 1 :: int] \<noteq> []
   \<and> get_group_counts_nb [0, 0, 1] = Inr [2, 1]
   \<and> sum_list [2, 1 :: int] = int (length [0, 0, 1 :: int])
   \<and> end_idxs [2, 1] ! 0 - start_idxs [2, 1] ! 0 = [2, 1] ! 0
   \<and> end_idxs [2, 1] ! 1 - start_idxs [2, 1] ! 1 = [2, 1] ! 1
   \<and> getitem (start_idxs [2, 1]) 0 = Some 0
   \<and> getlast (end_idxs [2, 1]) = Some (int (length [0, 0, 1 :: int]))
   \<and> sorted ([] :: int list)
   \<and> get_group_counts_nb [] = Inr [] \<and> start_idxs [] = [] \<and> end_idxs [] = []"
proof -
  have h1: "sorted [0, 0, 1 :: int]" by simp
  have h2: "\<forall>g\<in>set [0, 0, 1 :: int]. 0 \<le> g" by simp
  have h3: "[0, 0, 1 :: int] \<noteq> []" by simp
  from group_counts_and_offsets [OF h1 h2] obtain counts where
    c: "get_group_counts_nb [0, 0, 1] = Inr counts"
      "sum_list counts = int (length [0, 0, 1 :: int])"
      "\<forall>k<length counts. end_idxs counts ! k - start_idxs counts ! k = counts ! k"
      "getitem (start_idxs counts) 0 = Some 0"
      "getlast (end_idxs counts) = Some (int (length [0, 0, 1 :: int]))"
    using h3 by blast
  from c(1) have eq: "counts = [2, 1]"
    by (simp add: get_group_counts_nb_001)
  from c(3) have d: "end_idxs counts ! 0 - start_idxs counts ! 0 = counts ! 0"
    "end_idxs counts ! 1 - start_idxs counts ! 1 = counts ! 1"
    by (simp_all add: eq)
  from group_counts_and_offsets [of "[]"] obtain counts' where
    e: "get_group_counts_nb [] = Inr counts'" "counts' = []"
      "start_idxs counts' = []" "end_idxs counts' = []"
    by auto
  from h1 h3 c d e show ?thesis
    unfolding eq by simp
qed

text \<open>
  C3 as stated fails at the empty id array, which is non-decreasing: its counts are
  empty, and so are the offsets, so that there is no \<open>starts[0]\<close> and no last end offset
  to compare.
\<close>

theorem group_offsets_empty_counterexample:
  "sorted ([] :: int list) \<and> get_group_counts_nb [] = Inr []
   \<and> getitem (start_idxs []) 0 \<noteq> Some 0
   \<and> getlast (end_idxs []) \<noteq> Some (int (length ([] :: int list)))"
  by (simp add: get_group_counts_nb_def nb_init_def getitem_def getlast_def start_idxs_def
      end_idxs_def cumsum_def array_sub_def)

text \<open>
  C4. \<open>is_grouping_modified\<close> returns true exactly when the candidate normalizes to a
  label sequence, a baseline is stored, the two label sequences differ, both factorize,
  and their group ids differ. With the baseline labels \<open>a, a, b\<close> over three columns, the
  candidate \<open>x, x, y\<close> (the same partition under other labels) is not a modification and
  the candidate \<open>a, b, b\<close> (another partition) is one. A candidate whose ids do not
  exist, such as \<open>a, b, a\<close>, gives no answer: the call raises the error of the
  factorization.
\<close>

theorem is_grouping_modified_partition:
  "(is_grouping_modified sl g gb = Inr True \<longleftrightarrow>
      (\<exists>gx bx groups1 ix1 groups2 ix2.
         group_by_to_index sl (columns g) gb = Inr (GIndex gx) \<and> group_by g = Some bx
         \<and> vals gx \<noteq> vals bx
         \<and> get_groups_and_index sl (columns g) (GIndex gx) = Inr (groups1, ix1)
         \<and> get_groups_and_index sl (columns g) (GIndex bx) = Inr (groups2, ix2)
         \<and> groups1 \<noteq> groups2))
   \<and> (length (vals (columns g')) = 3 \<and> group_by g' = Some bx' \<and> vals bx' = aab \<longrightarrow>
        is_grouping_modified sl' g' (GArray xxy) = Inr False
        \<and> is_grouping_modified sl' g' (GArray abb) = Inr True
        \<and> is_grouping_modified sl' g' (GArray aba) = Inl IncoherentGroupsError)"
proof (intro conjI impI)
  show "is_grouping_modified sl g gb = Inr True \<longleftrightarrow>
      (\<exists>gx bx groups1 ix1 groups2 ix2.
         group_by_to_index sl (columns g) gb = Inr (GIndex gx) \<and> group_by g = Some bx
         \<and> vals gx \<noteq> vals bx
         \<and> get_groups_and_index sl (columns g) (GIndex gx) = Inr (groups1, ix1)
         \<and> get_groups_and_index sl (columns g) (GIndex bx) = Inr (groups2, ix2)
         \<and> groups1 \<noteq> groups2)"
    by (rule is_grouping_modified_True_iff)
next
  assume a: "length (vals (columns g')) = 3 \<and> group_by g' = Some bx' \<and> vals bx' = aab"
  then have bx': "bx' = \<lparr>vals = aab, names = names bx'\<rparr>" by simp
  have base: "get_groups_and_index sl' (columns g') (GIndex bx')
                = Inr ([0, 0, 1], \<lparr>vals = [Label ''a'', Label ''b''], names = names bx'\<rparr>)"
    using a by (subst bx') (simp add: get_groups_and_index_examples)
  have len: "length xxy = 3" "length abb = 3" "xxy \<noteq> aab" "abb \<noteq> aab"
    "length aba = 3" "aba \<noteq> aab"
    by (simp_all add: xxy_def abb_def aab_def aba_def)
  show "is_grouping_modified sl' g' (GArray xxy) = Inr False"
    using a len base
    by (simp add: is_grouping_modified_def group_by_to_index_simps pd_Index_equals_def
        pd_Index_def get_groups_and_index_examples)
  show "is_grouping_modified sl' g' (GArray abb) = Inr True"
    using a len base
    by (simp add: is_grouping_modified_def group_by_to_index_simps pd_Index_equals_def
        pd_Index_def get_groups_and_index_examples)
  show "is_grouping_modified sl' g' (GArray aba) = Inl IncoherentGroupsError"
    using a len
    by (simp add: is_grouping_modified_def group_by_to_index_simps pd_Index_equals_def
        pd_Index_def get_groups_and_index_examples)
qed

theorem is_grouping_modified_partition_witness:
  "length (vals (columns (grouped_aab True True True))) = 3
   \<and> group_by (grouped_aab True True True) = Some (pd_Index aab)
   \<and> vals (pd_Index aab) = aab
   \<and> is_grouping_modified no_levels (grouped_aab True True True) (GArray xxy) = Inr False
   \<and> is_grouping_modified no_levels (grouped_aab True True True) (GArray abb) = Inr True
   \<and> is_grouping_modified no_levels (grouped_aab True True True) (GArray aba)
        = Inl IncoherentGroupsError"
proof -
  have h: "length (vals (columns (grouped_aab True True True))) = 3
      \<and> group_by (grouped_aab True True True) = Some (pd_Index aab)
      \<and> vals (pd_Index aab) = aab"
    by (simp add: grouped_aab_def abc_columns_def pd_Index_def)
  from is_grouping_modified_partition
    [of no_levels "grouped_aab True True True" "GArray abb" "grouped_aab True True True"
      "pd_Index aab" no_levels] h
  show ?thesis by blast
qed

text \<open>
  C5. \<open>check_group_by\<close> fails with the permission error for enabling, disabling or
  modifying exactly when the flag in force (the keyword argument, or the grouper's own
  flag) is false and \<open>is_grouping_enabled\<close>, \<open>is_grouping_disabled\<close> or
  \<open>is_grouping_modified\<close> of the candidate is true. A grouper without a baseline whose
  \<open>allow_enable\<close> is false therefore refuses every candidate that is neither \<open>None\<close> nor a
  \<open>bool\<close>, in the check and in every accessor; with \<open>allow_enable\<close> true and three
  columns, the labels \<open>a, a, b\<close> give the counts \<open>[2, 1]\<close>, the start offsets \<open>[0, 2]\<close> and
  the end offsets \<open>[2, 3]\<close>.
\<close>

theorem check_group_by_permissions:
  "(check_group_by sl g gb kw = Inl (PermissionError Enable) \<longleftrightarrow>
      \<not> or_default (kw_allow_enable kw) (allow_enable g) \<and> is_grouping_enabled g gb)
   \<and> (check_group_by sl g gb kw = Inl (PermissionError Disable) \<longleftrightarrow>
      \<not> or_default (kw_allow_disable kw) (allow_disable g) \<and> is_grouping_disabled g gb)
   \<and> (check_group_by sl g gb kw = Inl (PermissionError Modify) \<longleftrightarrow>
      \<not> or_default (kw_allow_modify kw) (allow_modify g)
      \<and> is_grouping_modified sl g gb = Inr True)
   \<and> (group_by g = None \<and> \<not> allow_enable g \<and> kw_allow_enable kw = None
        \<and> \<not> is_none_or_bool gb \<longrightarrow>
          check_group_by sl g gb kw = Inl (PermissionError Enable)
          \<and> resolve_group_by sl g gb kw = Inl (PermissionError Enable)
          \<and> get_groups_and_columns sl g gb kw = Inl (PermissionError Enable)
          \<and> get_group_counts sl g gb kw = Inl (PermissionError Enable)
          \<and> get_group_start_idxs sl g gb kw = Inl (PermissionError Enable)
          \<and> get_group_end_idxs sl g gb kw = Inl (PermissionError Enable))
   \<and> (group_by g' = None \<and> allow_enable g' \<and> length (vals (columns g')) = 3 \<longrightarrow>
          get_group_counts sl' g' (GArray aab) no_flags = Inr [2, 1]
          \<and> get_group_start_idxs sl' g' (GArray aab) no_flags = Inr [0, 2]
          \<and> get_group_end_idxs sl' g' (GArray aab) no_flags = Inr [2, 3])"
  using enable_refused [of g kw gb sl] enable_allowed_aab [of g' sl']
  by (simp add: check_group_by_Enable_iff check_group_by_Disable_iff check_group_by_Modify_iff)

theorem check_group_by_permissions_witness:
  "ColumnGrouper_init no_levels (Some abc_columns) GNone False True True
     = Inr (ungrouped False True True)
   \<and> ColumnGrouper_init no_levels (Some abc_columns) GNone True True True
     = Inr (ungrouped True True True)
   \<and> group_by (ungrouped False True True) = None \<and> \<not> allow_enable (ungrouped False True True)
   \<and> kw_allow_enable no_flags = None \<and> \<not> is_none_or_bool (GArray aab)
   \<and> check_group_by no_levels (ungrouped False True True) (GArray aab) no_flags
        = Inl (PermissionError Enable)
   \<and> get_group_counts no_levels (ungrouped False True True) (GArray aab) no_flags
        = Inl (PermissionError Enable)
   \<and> group_by (ungrouped True True True) = None \<and> allow_enable (ungrouped True True True)
   \<and> length (vals (columns (ungrouped True True True))) = 3
   \<and> get_group_counts no_levels (ungrouped True True True) (GArray aab) no_flags = Inr [2, 1]
   \<and> get_group_start_idxs no_levels (ungrouped True True True) (GArray aab) no_flags
        = Inr [0, 2]
   \<and> get_group_end_idxs no_levels (ungrouped True True True) (GArray aab) no_flags
        = Inr [2, 3]
   \<and> is_grouping_disabled (grouped_aab True False True) (GBool False)
   \<and> check_group_by no_levels (grouped_aab True False True) (GBool False) no_flags
        = Inl (PermissionError Disable)
   \<and> is_grouping_modified no_levels (grouped_aab True True False) (GArray abb) = Inr True
   \<and> check_group_by no_levels (grouped_aab True True False) (GArray abb) no_flags
        = Inl (PermissionError Modify)
   \<and> check_group_by no_levels (grouped_aab True True True) (GArray abb) no_flags
        \<noteq> Inl (PermissionError Modify)"
proof -
  have i: "ColumnGrouper_init no_levels (Some abc_columns) GNone False True True
             = Inr (ungrouped False True True)"
    "ColumnGrouper_init no_levels (Some abc_columns) GNone True True True
             = Inr (ungrouped True True True)"
    by (simp_all add: ColumnGrouper_init_def ungrouped_def is_none_or_bool_def)
  have h1: "group_by (ungrouped False True True) = None \<and> \<not> allow_enable (ungrouped False True True)
       \<and> kw_allow_enable no_flags = None \<and> \<not> is_none_or_bool (GArray aab)"
    by (simp add: ungrouped_def no_flags_def is_none_or_bool_def)
  have h2: "group_by (ungrouped True True True) = None \<and> allow_enable (ungrouped True True True)
       \<and> length (vals (columns (ungrouped True True True))) = 3"
    by (simp add: ungrouped_def abc_columns_def pd_Index_def)
  have d: "is_grouping_disabled (grouped_aab True False True) (GBool False)"
    "\<not> or_default (kw_allow_disable no_flags) (allow_disable (grouped_aab True False True))"
    by (simp_all add: is_grouping_disabled_def is_grouped_def grouped_aab_def no_flags_def
        or_default_def)
  have m: "\<not> or_default (kw_allow_modify no_flags) (allow_modify (grouped_aab True True False))"
    "or_default (kw_allow_modify no_flags) (allow_modify (grouped_aab True True True))"
    by (simp_all add: grouped_aab_def no_flags_def or_default_def)
  from check_group_by_permissions
    [of no_levels "ungrouped False True True" "GArray aab" no_flags
      "ungrouped True True True" no_levels] i h1 h2
  have a: "check_group_by no_levels (ungrouped False True True) (GArray aab) no_flags
        = Inl (PermissionError Enable)
   \<and> get_group_counts no_levels (ungrouped False True True) (GArray aab) no_flags
        = Inl (PermissionError Enable)
   \<and> get_group_counts no_levels (ungrouped True True True) (GArray aab) no_flags = Inr [2, 1]
   \<and> get_group_start_idxs no_levels (ungrouped True True True) (GArray aab) no_flags
        = Inr [0, 2]
   \<and> get_group_end_idxs no_levels (ungrouped True True True) (GArray aab) no_flags
        = Inr [2, 3]"
    by blast
  from check_group_by_permissions
    [of no_levels "grouped_aab True False True" "GBool False" no_flags] d
  have b: "check_group_by no_levels (grouped_aab True False True) (GBool False) no_flags
        = Inl (PermissionError Disable)"
    by blast
  from check_group_by_permissions
    [of no_levels "grouped_aab True True False" "GArray abb" no_flags] m(1) modified_abb
  have c: "check_group_by no_levels (grouped_aab True True False) (GArray abb) no_flags
        = Inl (PermissionError Modify)"
    by blast
  from check_group_by_permissions
    [of no_levels "grouped_aab True True True" "GArray abb" no_flags] m(2)
  have c': "check_group_by no_levels (grouped_aab True True True) (GArray abb) no_flags
        \<noteq> Inl (PermissionError Modify)"
    by blast
  from i h1 h2 a b c c' d(1) modified_abb show ?thesis by blast
qed

text \<open>
  C6. \<open>resolve_group_by\<close> replaces a candidate \<open>True\<close> (use the baseline) or \<open>None\<close> by the
  stored baseline, and \<open>False\<close> by \<open>None\<close> when the baseline is \<open>None\<close>; every other
  candidate, and \<open>False\<close> over a baseline, is kept as it is. It runs \<open>check_group_by\<close> on
  that candidate first, so that a permission failure is the failure of the whole call
  whatever normalization would do, and otherwise returns what \<open>group_by_to_index\<close> makes
  of it. Hence resolving \<open>True\<close>, or \<open>None\<close>, gives the result of resolving the baseline
  itself; on a grouper as the constructor builds it that result is the baseline.
\<close>

theorem resolve_group_by_baseline:
  "resolve_group_by sl g gb kw =
     (let gb' = (if gb = GNone \<or> gb = GBool True
                 then (case group_by g of None \<Rightarrow> GNone | Some bx \<Rightarrow> GIndex bx)
                 else if gb = GBool False \<and> group_by g = None then GNone
                 else gb)
      in case check_group_by sl g gb' kw of
           Inl e \<Rightarrow> Inl e
         | Inr u \<Rightarrow> group_by_to_index sl (columns g) gb')
   \<and> substitute_group_by g (GBool True) = self_group_by g
   \<and> substitute_group_by g GNone = self_group_by g
   \<and> (group_by g = None \<longrightarrow>
        self_group_by g = GNone
        \<and> substitute_group_by g (GBool False) = GNone
        \<and> resolve_group_by sl g (GBool False) kw = Inr GNone)
   \<and> (\<forall>bx. group_by g = Some bx \<longrightarrow>
        self_group_by g = GIndex bx
        \<and> substitute_group_by g (GBool False) = GBool False
        \<and> resolve_group_by sl g (GBool False) kw =
            (case check_group_by sl g (GBool False) kw of
               Inl e \<Rightarrow> Inl e
             | Inr u \<Rightarrow> Inr (GBool False)))
   \<and> (\<not> is_none_or_bool gb \<longrightarrow>
        substitute_group_by g gb = gb
        \<and> resolve_group_by sl g gb kw =
            (case check_group_by sl g gb kw of
               Inl e \<Rightarrow> Inl e
             | Inr u \<Rightarrow> group_by_to_index sl (columns g) gb))
   \<and> resolve_group_by sl g gb kw =
       (case check_group_by sl g (substitute_group_by g gb) kw of
          Inl e \<Rightarrow> Inl e
        | Inr u \<Rightarrow> group_by_to_index sl (columns g) (substitute_group_by g gb))
   \<and> resolve_group_by sl g (GBool True) kw = resolve_group_by sl g (self_group_by g) kw
   \<and> resolve_group_by sl g GNone kw = resolve_group_by sl g (self_group_by g) kw
   \<and> (grouper_ok g \<longrightarrow>
        resolve_group_by sl g (GBool True) kw = Inr (self_group_by g)
        \<and> resolve_group_by sl g GNone kw = Inr (self_group_by g))
   \<and> (group_by g = None \<and> \<not> allow_enable g \<and> kw_allow_enable kw = None
        \<and> \<not> is_none_or_bool gb \<longrightarrow>
          resolve_group_by sl g gb kw = Inl (PermissionError Enable))"
proof -
  have unfold: "resolve_group_by sl g gb' kw =
         (case check_group_by sl g (substitute_group_by g gb') kw of
            Inl e \<Rightarrow> Inl e
          | Inr u \<Rightarrow> group_by_to_index sl (columns g) (substitute_group_by g gb'))" for gb'
    by (simp add: resolve_group_by_def Let_def)
  have sub: "substitute_group_by g gb =
      (if gb = GNone \<or> gb = GBool True
       then (case group_by g of None \<Rightarrow> GNone | Some bx \<Rightarrow> GIndex bx)
       else if gb = GBool False \<and> group_by g = None then GNone
       else gb)"
  proof (cases gb)
    case (GBool b)
    then show ?thesis
      by (cases b) (simp_all add: substitute_group_by_simps self_group_by_def)
  qed (simp_all add: substitute_group_by_simps self_group_by_def)
  have explicit: "resolve_group_by sl g gb kw =
     (let gb' = (if gb = GNone \<or> gb = GBool True
                 then (case group_by g of None \<Rightarrow> GNone | Some bx \<Rightarrow> GIndex bx)
                 else if gb = GBool False \<and> group_by g = None then GNone
                 else gb)
      in case check_group_by sl g gb' kw of
           Inl e \<Rightarrow> Inl e
         | Inr u \<Rightarrow> group_by_to_index sl (columns g) gb')"
    unfolding unfold [of gb] sub Let_def ..
  have disable: "resolve_group_by sl g (GBool False) kw = Inr GNone" if "group_by g = None"
  proof -
    have "check_group_by sl g GNone kw = Inr ()"
      by (auto simp: is_grouping_enabled_def is_grouping_disabled_def is_grouped_simps
          is_grouping_modified_simps check_group_by_def Let_def)
    with that show ?thesis
      by (simp add: unfold substitute_group_by_simps group_by_to_index_simps)
  qed
  have keep_False: "resolve_group_by sl g (GBool False) kw =
            (case check_group_by sl g (GBool False) kw of
               Inl e \<Rightarrow> Inl e
             | Inr u \<Rightarrow> Inr (GBool False))" if "group_by g = Some bx" for bx
    using that
    by (simp add: unfold substitute_group_by_simps group_by_to_index_simps split: sum.splits)
  have keep: "substitute_group_by g gb = gb" if "\<not> is_none_or_bool gb"
    using that by (cases gb) (simp_all add: substitute_group_by_simps is_none_or_bool_simps)
  have keep_resolve: "resolve_group_by sl g gb kw =
            (case check_group_by sl g gb kw of
               Inl e \<Rightarrow> Inl e
             | Inr u \<Rightarrow> group_by_to_index sl (columns g) gb)" if "\<not> is_none_or_bool gb"
    by (simp add: unfold keep [OF that] cong: sum.case_cong)
  have same: "resolve_group_by sl g gb1 kw = resolve_group_by sl g gb2 kw"
    if "substitute_group_by g gb1 = substitute_group_by g gb2" for gb1 gb2
    using that by (simp add: resolve_group_by_def)
  have use_baseline:
    "resolve_group_by sl g (GBool True) kw = resolve_group_by sl g (self_group_by g) kw"
    by (rule same) (simp add: substitute_group_by_simps substitute_group_by_self)
  have absent: "resolve_group_by sl g GNone kw = resolve_group_by sl g (self_group_by g) kw"
    by (rule same) (simp add: substitute_group_by_simps substitute_group_by_self)
  have ok: "resolve_group_by sl g (GBool True) kw = Inr (self_group_by g)"
    "resolve_group_by sl g GNone kw = Inr (self_group_by g)" if "grouper_ok g"
    using that
    by (simp_all add: unfold substitute_group_by_simps check_group_by_self
        group_by_to_index_self)
  have refused: "resolve_group_by sl g gb kw = Inl (PermissionError Enable)"
    if "group_by g = None \<and> \<not> allow_enable g \<and> kw_allow_enable kw = None
        \<and> \<not> is_none_or_bool gb"
    using that enable_refused(2) [of g kw gb sl] by blast
  have self: "self_group_by g = GNone" if "group_by g = None"
    using that by (simp add: self_group_by_def)
  have self': "self_group_by g = GIndex bx" if "group_by g = Some bx" for bx
    using that by (simp add: self_group_by_def)
  have s1: "substitute_group_by g (GBool True) = self_group_by g"
    and s2: "substitute_group_by g GNone = self_group_by g"
    by (simp_all add: substitute_group_by_simps)
  have s3: "substitute_group_by g (GBool False) = GNone" if "group_by g = None"
    using that by (simp add: substitute_group_by_simps)
  have s4: "substitute_group_by g (GBool False) = GBool False" if "group_by g = Some bx" for bx
    using that by (simp add: substitute_group_by_simps)
  note central = unfold [of gb]
  show ?thesis
    using explicit s1 s2 s3 s4 disable keep_False keep keep_resolve central use_baseline
      absent ok refused self self'
    by blast
qed


theorem resolve_group_by_baseline_witness:
  "group_by (ungrouped False True True) = None \<and> \<not> allow_enable (ungrouped False True True)
   \<and> kw_allow_enable no_flags = None \<and> \<not> is_none_or_bool (GArray aab)
   \<and> \<not> is_none_or_bool (GArray [Label ''a''])
   \<and> resolve_group_by no_levels (ungrouped False True True) (GArray aab) no_flags
        = Inl (PermissionError Enable)
   \<and> group_by_to_index no_levels abc_columns (GArray [Label ''a'']) = Inl LengthMismatch
   \<and> resolve_group_by no_levels (ungrouped False True True) (GArray [Label ''a'']) no_flags
        = Inl (PermissionError Enable)
   \<and> resolve_group_by no_levels (ungrouped True True True) (GArray [Label ''a'']) no_flags
        = Inl LengthMismatch
   \<and> resolve_group_by no_levels (ungrouped True True True) (GArray aab) no_flags
        = Inr (GIndex (pd_Index aab))
   \<and> resolve_group_by no_levels (ungrouped True True True) (GBool False) no_flags = Inr GNone
   \<and> grouper_ok (grouped_aab True True True)
   \<and> group_by (grouped_aab True True True) = Some (pd_Index aab)
   \<and> resolve_group_by no_levels (grouped_aab True True True) (GBool True) no_flags
        = Inr (GIndex (pd_Index aab))
   \<and> resolve_group_by no_levels (grouped_aab True True True) GNone no_flags
        = Inr (GIndex (pd_Index aab))
   \<and> resolve_group_by no_levels (grouped_aab True True True) (GBool False) no_flags
        = Inr (GBool False)
   \<and> resolve_group_by no_levels (grouped_aab True False True) (GBool False) no_flags
        = Inl (PermissionError Disable)
   \<and> resolve_group_by no_levels (grouped_aab True True True) (GArray abb) no_flags
        = Inr (GIndex (pd_Index abb))
   \<and> resolve_group_by no_levels (grouped_aab True True False) (GArray abb) no_flags
        = Inl (PermissionError Modify)"
proof -
  note T = resolve_group_by_baseline
  have u: "group_by (ungrouped ae ad am) = None" "columns (ungrouped ae ad am) = abc_columns"
    "allow_enable (ungrouped ae ad am) = ae" for ae ad am
    by (simp_all add: ungrouped_def)
  have b: "group_by (grouped_aab ae ad am) = Some (pd_Index aab)"
    "columns (grouped_aab ae ad am) = abc_columns" for ae ad am
    by (simp_all add: grouped_aab_def)
  have ok: "grouper_ok (grouped_aab True True True)"
    by (simp add: grouper_ok_def b pd_Index_def aab_def abc_columns_def)
  have kw: "kw_allow_enable no_flags = None"
    by (simp add: no_flags_def)
  have nb: "\<not> is_none_or_bool (GArray aab)" "\<not> is_none_or_bool (GArray abb)"
    "\<not> is_none_or_bool (GArray [Label ''a''])"
    by (simp_all add: is_none_or_bool_def)
  have free_u: "check_group_by no_levels (ungrouped True True True) gb no_flags = Inr ()" for gb
    by (rule check_group_by_unrestricted)
       (simp_all add: or_default_def no_flags_def ungrouped_def)
  have free_b: "check_group_by no_levels (grouped_aab True True True) gb no_flags = Inr ()" for gb
    by (rule check_group_by_unrestricted)
       (simp_all add: or_default_def no_flags_def grouped_aab_def)
  have dis: "check_group_by no_levels (grouped_aab True False True) (GBool False) no_flags
      = Inl (PermissionError Disable)"
    by (simp add: check_group_by_Disable_iff is_grouping_disabled_def is_grouped_def
        grouped_aab_def no_flags_def or_default_def)
  have md: "check_group_by no_levels (grouped_aab True True False) (GArray abb) no_flags
      = Inl (PermissionError Modify)"
    by (simp add: check_group_by_Modify_iff modified_abb)
       (simp add: grouped_aab_def no_flags_def or_default_def)
  have n: "group_by_to_index no_levels abc_columns (GArray [Label ''a'']) = Inl LengthMismatch"
    "group_by_to_index no_levels abc_columns (GArray aab) = Inr (GIndex (pd_Index aab))"
    "group_by_to_index no_levels abc_columns (GArray abb) = Inr (GIndex (pd_Index abb))"
    by (simp_all add: group_by_to_index_simps abc_columns_def pd_Index_def aab_def abb_def)
  have r1: "resolve_group_by no_levels (ungrouped False True True) (GArray aab) no_flags
        = Inl (PermissionError Enable)"
    using T [of no_levels "ungrouped False True True" "GArray aab" no_flags] u kw nb by blast
  have r2: "resolve_group_by no_levels (ungrouped False True True) (GArray [Label ''a'']) no_flags
        = Inl (PermissionError Enable)"
    using T [of no_levels "ungrouped False True True" "GArray [Label ''a'']" no_flags] u kw nb
    by blast
  have "resolve_group_by no_levels (ungrouped True True True) (GArray [Label ''a'']) no_flags
        = (case check_group_by no_levels (ungrouped True True True) (GArray [Label ''a''])
                  no_flags of
             Inl e \<Rightarrow> Inl e
           | Inr u \<Rightarrow> group_by_to_index no_levels (columns (ungrouped True True True))
                        (GArray [Label ''a'']))"
    using T [of no_levels "ungrouped True True True" "GArray [Label ''a'']" no_flags] nb by blast
  then have r3: "resolve_group_by no_levels (ungrouped True True True) (GArray [Label ''a''])
        no_flags = Inl LengthMismatch"
    by (simp add: free_u u n)
  have "resolve_group_by no_levels (ungrouped True True True) (GArray aab) no_flags
        = (case check_group_by no_levels (ungrouped True True True) (GArray aab) no_flags of
             Inl e \<Rightarrow> Inl e
           | Inr u \<Rightarrow> group_by_to_index no_levels (columns (ungrouped True True True))
                        (GArray aab))"
    using T [of no_levels "ungrouped True True True" "GArray aab" no_flags] nb by blast
  then have r4: "resolve_group_by no_levels (ungrouped True True True) (GArray aab) no_flags
        = Inr (GIndex (pd_Index aab))"
    by (simp add: free_u u n)
  have r5: "resolve_group_by no_levels (ungrouped True True True) (GBool False) no_flags
        = Inr GNone"
    using T [of no_levels "ungrouped True True True" "GBool False" no_flags]
      u(1) [of True True True]
    by meson
  have sg: "self_group_by (grouped_aab True True True) = GIndex (pd_Index aab)"
    using T [of no_levels "grouped_aab True True True" GNone no_flags] b by blast
  have r6: "resolve_group_by no_levels (grouped_aab True True True) (GBool True) no_flags
        = Inr (GIndex (pd_Index aab))"
    and r7: "resolve_group_by no_levels (grouped_aab True True True) GNone no_flags
        = Inr (GIndex (pd_Index aab))"
    using T [of no_levels "grouped_aab True True True" GNone no_flags] ok
    unfolding sg by blast+
  have "resolve_group_by no_levels (grouped_aab ae ad am) (GBool False) no_flags
        = (case check_group_by no_levels (grouped_aab ae ad am) (GBool False) no_flags of
             Inl e \<Rightarrow> Inl e
           | Inr u \<Rightarrow> Inr (GBool False))" for ae ad am
    using T [of no_levels "grouped_aab ae ad am" "GBool False" no_flags] b by blast
  then have r8: "resolve_group_by no_levels (grouped_aab True True True) (GBool False) no_flags
        = Inr (GBool False)"
    and r9: "resolve_group_by no_levels (grouped_aab True False True) (GBool False) no_flags
        = Inl (PermissionError Disable)"
    by (simp_all add: free_b dis)
  have "resolve_group_by no_levels (grouped_aab ae ad am) (GArray abb) no_flags
        = (case check_group_by no_levels (grouped_aab ae ad am) (GArray abb) no_flags of
             Inl e \<Rightarrow> Inl e
           | Inr u \<Rightarrow> group_by_to_index no_levels (columns (grouped_aab ae ad am))
                        (GArray abb))" for ae ad am
    using T [of no_levels "grouped_aab ae ad am" "GArray abb" no_flags] nb by blast
  then have r10: "resolve_group_by no_levels (grouped_aab True True True) (GArray abb) no_flags
        = Inr (GIndex (pd_Index abb))"
    and r11: "resolve_group_by no_levels (grouped_aab True True False) (GArray abb) no_flags
        = Inl (PermissionError Modify)"
    by (simp_all add: free_b md b n)
  from u [of False True True] kw nb n(1) ok b [of True True True]
    r1 r2 r3 r4 r5 r6 r7 r8 r9 r10 r11
  show ?thesis by simp
qed



text \<open>
  C7, as the code has it. For every column set and every grouping specification that
  normalizes to a label sequence of the columns' length with coherent (non-decreasing)
  factorized ids, \<open>get_groups_and_index\<close> returns ids and a group index such that at
  every column position \<open>i\<close> whose label is not missing the id is a position of the group
  index, and the group index read at the id of \<open>i\<close> is the normalized label of \<open>i\<close>. A
  position whose label is missing has the id \<open>- 1\<close>, and no entry of the group index is
  missing.
\<close>

theorem factorize_round_trip:
  assumes "\<not> is_none_or_bool gb" and "coerce_mapper sl cols gb = Inr gx"
    and "length (vals gx) = length (vals cols)"
    and "sorted (fst (factorize (vals gx)))"
  shows "\<exists>groups ix. get_groups_and_index sl cols gb = Inr (groups, ix)
           \<and> length groups = length (vals cols)
           \<and> Missing \<notin> set (vals ix)
           \<and> (\<forall>i<length (vals cols).
                 (vals gx ! i \<noteq> Missing \<longrightarrow>
                    0 \<le> groups ! i \<and> nat (groups ! i) < length (vals ix)
                    \<and> index_at (vals ix) (groups ! i) = Some (vals gx ! i))
                 \<and> (vals gx ! i = Missing \<longrightarrow> groups ! i = - 1))"
proof -
  let ?groups = "fst (factorize (vals gx))"
  let ?ix = "\<lparr>vals = snd (factorize (vals gx)), names = names gx\<rparr>"
  have "get_groups_and_index sl cols gb = Inr (?groups, ?ix)"
    using assms by (simp add: get_groups_and_index_labels)
  moreover have "length ?groups = length (vals cols)"
    using assms(3) by (simp add: factorize_length)
  moreover have "Missing \<notin> set (vals ?ix)"
    by (simp add: factorize_set)
  moreover have "(vals gx ! i \<noteq> Missing \<longrightarrow>
                    0 \<le> ?groups ! i \<and> nat (?groups ! i) < length (vals ?ix)
                    \<and> index_at (vals ?ix) (?groups ! i) = Some (vals gx ! i))
                 \<and> (vals gx ! i = Missing \<longrightarrow> ?groups ! i = - 1)"
    if "i < length (vals cols)" for i
  proof (intro conjI impI)
    from that assms(3) have i: "i < length (vals gx)" by simp
    {
      assume p: "vals gx ! i \<noteq> Missing"
      from factorize_roundtrip [OF i p]
      show "0 \<le> ?groups ! i" and "nat (?groups ! i) < length (vals ?ix)"
        and "index_at (vals ?ix) (?groups ! i) = Some (vals gx ! i)"
        by (simp_all add: index_at_nonneg)
    }
    assume "vals gx ! i = Missing"
    then show "?groups ! i = - 1"
      using i by (simp add: factorize_nth)
  qed
  ultimately show ?thesis by blast
qed

theorem factorize_round_trip_witness:
  "\<not> is_none_or_bool (GArray naa)
   \<and> coerce_mapper no_levels abc_columns (GArray naa) = Inr (pd_Index naa)
   \<and> length (vals (pd_Index naa)) = length (vals abc_columns)
   \<and> sorted (fst (factorize (vals (pd_Index naa))))
   \<and> get_groups_and_index no_levels abc_columns (GArray naa)
        = Inr ([- 1, 0, 0], \<lparr>vals = [Label ''a''], names = [None]\<rparr>)
   \<and> naa ! 0 = Missing \<and> [- 1, 0, 0 :: int] ! 0 = - 1
   \<and> naa ! 1 \<noteq> Missing \<and> index_at [Label ''a''] ([- 1, 0, 0] ! 1) = Some (naa ! 1)
   \<and> naa ! 2 \<noteq> Missing \<and> index_at [Label ''a''] ([- 1, 0, 0] ! 2) = Some (naa ! 2)"
proof -
  have h1: "\<not> is_none_or_bool (GArray naa)"
    by (simp add: is_none_or_bool_def)
  have h2: "coerce_mapper no_levels abc_columns (GArray naa) = Inr (pd_Index naa)"
    by simp
  have h3: "length (vals (pd_Index naa)) = length (vals abc_columns)"
    by (simp add: pd_Index_def naa_def abc_columns_def)
  have h4: "sorted (fst (factorize (vals (pd_Index naa))))"
    by (simp add: pd_Index_def factorize_naa)
  have len: "length (vals abc_columns) = 3" "vals (pd_Index naa) = naa"
    by (simp_all add: abc_columns_def pd_Index_def)
  have r: "get_groups_and_index no_levels abc_columns (GArray naa)
        = Inr ([- 1, 0, 0], \<lparr>vals = [Label ''a''], names = [None]\<rparr>)"
    by (simp add: get_groups_and_index_naa len)
  have m: "naa ! 0 = Missing" "naa ! 1 \<noteq> Missing" "naa ! 2 \<noteq> Missing"
    by (simp_all add: naa_def)
  from factorize_round_trip [OF h1 h2 h3 h4] r
  have all: "\<forall>i<length (vals abc_columns).
      (vals (pd_Index naa) ! i \<noteq> Missing \<longrightarrow>
         index_at [Label ''a''] ([- 1, 0, 0] ! i) = Some (vals (pd_Index naa) ! i))
      \<and> (vals (pd_Index naa) ! i = Missing \<longrightarrow> [- 1, 0, 0 :: int] ! i = - 1)"
    by auto
  note at = all [unfolded len, rule_format]
  have "[- 1, 0, 0 :: int] ! 0 = - 1"
    "index_at [Label ''a''] ([- 1, 0, 0] ! 1) = Some (naa ! 1)"
    "index_at [Label ''a''] ([- 1, 0, 0] ! 2) = Some (naa ! 2)"
    using at [of 0] at [of 1] at [of 2] m by simp_all
  with h1 h2 h3 h4 r m show ?thesis by blast
qed

text \<open>
  C7 as stated fails on a missing label. The labels \<open>missing, a, a\<close> over three columns
  factorize to the coherent ids \<open>- 1, 0, 0\<close> and the group index \<open>a\<close>; the group index
  read at the id of the first column, its last entry, is \<open>a\<close> and not the label of that
  column.
\<close>

theorem round_trip_missing_counterexample:
  "get_groups_and_index no_levels abc_columns (GArray naa)
     = Inr ([- 1, 0, 0], \<lparr>vals = [Label ''a''], names = [None]\<rparr>)
   \<and> sorted [- 1, 0, 0 :: int]
   \<and> index_at (vals \<lparr>vals = [Label ''a''], names = [None]\<rparr>) ([- 1, 0, 0] ! 0)
        = Some (Label ''a'')
   \<and> index_at (vals \<lparr>vals = [Label ''a''], names = [None]\<rparr>) ([- 1, 0, 0] ! 0)
        \<noteq> Some (naa ! 0)"
proof -
  have "length (vals abc_columns) = 3"
    by (simp add: abc_columns_def pd_Index_def)
  then have "get_groups_and_index no_levels abc_columns (GArray naa)
     = Inr ([- 1, 0, 0], \<lparr>vals = [Label ''a''], names = [None]\<rparr>)"
    by (rule get_groups_and_index_naa)
  moreover have "naa ! 0 = Missing"
    by (simp add: naa_def)
  ultimately show ?thesis
    by (simp add: index_at_def)
qed

text \<open>
  C8, as the code has it. Every id array that \<open>get_groups_and_index\<close> returns, for any
  columns and any grouping specification, has one entry per column, is non-decreasing,
  and has no id that recurs after another one (each id is one contiguous run). Without
  grouping the ids are \<open>0, ..., C - 1\<close> and the group index is the columns. With a label
  sequence a missing label has the id \<open>- 1\<close> and the other ids are exactly
  \<open>0, ..., G - 1\<close>, where \<open>G\<close> is the length of the returned group index, assigned in
  first-appearance order (the id of a label is the number of distinct labels, not
  counting the missing one, before its first occurrence); the group index holds the
  distinct labels that are not missing, with the names of the sequence. When no label is
  missing the ids take exactly the values \<open>0, ..., G - 1\<close>.
\<close>

theorem group_ids_invariant:
  assumes "get_groups_and_index sl cols gb = Inr (groups, ix)"
  shows "length groups = length (vals cols)
         \<and> sorted groups \<and> \<not> recurs groups
         \<and> (is_none_or_bool gb \<longrightarrow>
               groups = map int [0..<length (vals cols)] \<and> ix = cols
               \<and> set groups = int ` {0..<length (vals ix)})
         \<and> (\<forall>gx. \<not> is_none_or_bool gb \<and> coerce_mapper sl cols gb = Inr gx \<longrightarrow>
               groups = first_appearance_ids (vals gx)
               \<and> set groups = int ` {0..<length (vals ix)}
                     \<union> (if Missing \<in> set (vals gx) then {- 1} else {})
               \<and> (Missing \<notin> set (vals gx) \<longrightarrow> set groups = int ` {0..<length (vals ix)})
               \<and> (\<forall>i<length (vals cols). groups ! i = - 1 \<longleftrightarrow> vals gx ! i = Missing)
               \<and> distinct (vals ix) \<and> set (vals ix) = set (vals gx) - {Missing}
               \<and> names ix = names gx)"
proof (cases "is_none_or_bool gb")
  case True
  with assms have eq: "groups = map int [0..<length (vals cols)]" "ix = cols"
    by (auto simp: get_groups_and_index_absent)
  have s: "sorted groups" unfolding eq(1) by (rule sorted_arange)
  with recurs_not_sorted have "\<not> recurs groups" by blast
  with True eq s show ?thesis by simp
next
  case False
  from get_groups_and_index_Inr_labels [OF assms False] obtain gx where
    gx: "coerce_mapper sl cols gb = Inr gx" "length (vals gx) = length (vals cols)"
      "sorted (fst (factorize (vals gx)))" "groups = fst (factorize (vals gx))"
      "ix = \<lparr>vals = snd (factorize (vals gx)), names = names gx\<rparr>"
    by blast
  have "\<not> recurs groups"
    using gx(3,4) recurs_not_sorted by blast
  moreover have v: "set groups = int ` {0..<length (vals ix)}
      \<union> (if Missing \<in> set (vals gx) then {- 1} else {})"
    by (simp add: gx(4,5) factorize_codes_set)
  moreover have "Missing \<notin> set (vals gx) \<longrightarrow> set groups = int ` {0..<length (vals ix)}"
    using v by simp
  moreover have "groups = first_appearance_ids (vals gx)"
    by (simp add: gx(4) factorize_first_appearance)
  moreover have "\<forall>i<length (vals cols). groups ! i = - 1 \<longleftrightarrow> vals gx ! i = Missing"
    by (simp add: gx(2,4) factorize_nth_Missing)
  moreover have "distinct (vals ix)" "set (vals ix) = set (vals gx) - {Missing}"
    "names ix = names gx"
    by (simp_all add: gx(5) factorize_distinct factorize_set)
  moreover have "length groups = length (vals cols)"
    by (simp add: gx(2,4) factorize_length)
  moreover have "sorted groups"
    by (simp add: gx(3,4))
  ultimately show ?thesis
    using False gx(1) by simp
qed

theorem group_ids_invariant_witness:
  "get_groups_and_index no_levels abc_columns (GArray aab)
     = Inr ([0, 0, 1], \<lparr>vals = [Label ''a'', Label ''b''], names = [None]\<rparr>)
   \<and> \<not> is_none_or_bool (GArray aab)
   \<and> coerce_mapper no_levels abc_columns (GArray aab) = Inr (pd_Index aab)
   \<and> Missing \<notin> set (vals (pd_Index aab))
   \<and> length [0, 0, 1 :: int] = length (vals abc_columns)
   \<and> set [0, 0, 1 :: int]
        = int ` {0..<length (vals \<lparr>vals = [Label ''a'', Label ''b''], names = [None]\<rparr>)}
   \<and> sorted [0, 0, 1 :: int] \<and> \<not> recurs [0, 0, 1]
   \<and> [0, 0, 1] = first_appearance_ids (vals (pd_Index aab))
   \<and> get_groups_and_index no_levels abc_columns (GArray naa)
     = Inr ([- 1, 0, 0], \<lparr>vals = [Label ''a''], names = [None]\<rparr>)
   \<and> \<not> is_none_or_bool (GArray naa)
   \<and> coerce_mapper no_levels abc_columns (GArray naa) = Inr (pd_Index naa)
   \<and> [- 1, 0, 0] = first_appearance_ids (vals (pd_Index naa))
   \<and> sorted [- 1, 0, 0 :: int] \<and> \<not> recurs [- 1, 0, 0]
   \<and> is_none_or_bool (GNone :: string group_by)
   \<and> get_groups_and_index no_levels abc_columns GNone = Inr ([0, 1, 2], abc_columns)
   \<and> set [0, 1, 2 :: int] = int ` {0..<length (vals abc_columns)}
   \<and> \<not> recurs [0, 1, 2]"
proof -
  have len: "length (vals abc_columns) = 3"
    by (simp add: abc_columns_def pd_Index_def)
  have h1: "get_groups_and_index no_levels abc_columns (GArray aab)
     = Inr ([0, 0, 1], \<lparr>vals = [Label ''a'', Label ''b''], names = [None]\<rparr>)"
    by (simp add: get_groups_and_index_labels is_none_or_bool_simps pd_Index_def
        factorize_examples len)
       (simp add: aab_def)
  have h2: "\<not> is_none_or_bool (GArray aab)"
    "coerce_mapper no_levels abc_columns (GArray aab) = Inr (pd_Index aab)"
    "\<not> is_none_or_bool (GArray naa)"
    "coerce_mapper no_levels abc_columns (GArray naa) = Inr (pd_Index naa)"
    by (simp_all add: is_none_or_bool_def)
  have h3: "is_none_or_bool (GNone :: string group_by)"
    by (simp add: is_none_or_bool_def)
  have h4: "get_groups_and_index no_levels abc_columns GNone = Inr ([0, 1, 2], abc_columns)"
    by (simp add: get_groups_and_index_def is_none_or_bool_def arange_def abc_columns_def
        pd_Index_def upt_rec)
  have h5: "get_groups_and_index no_levels abc_columns (GArray naa)
     = Inr ([- 1, 0, 0], \<lparr>vals = [Label ''a''], names = [None]\<rparr>)"
    by (rule get_groups_and_index_naa [OF len])
  have h6: "Missing \<notin> set (vals (pd_Index aab))"
    by (simp add: pd_Index_def aab_def)
  note A = group_ids_invariant [OF h1]
  note B = group_ids_invariant [OF h5]
  note C = group_ids_invariant [OF h4]
  have a: "length [0, 0, 1 :: int] = length (vals abc_columns)"
    "sorted [0, 0, 1 :: int]" "\<not> recurs [0, 0, 1]"
    using A by blast+
  have a5: "[0, 0, 1] = first_appearance_ids (vals (pd_Index aab))
      \<and> set [0, 0, 1 :: int]
        = int ` {0..<length (vals \<lparr>vals = [Label ''a'', Label ''b''], names = [None]\<rparr>)}"
    using A [THEN conjunct2, THEN conjunct2, THEN conjunct2, THEN conjunct2, rule_format,
        of "pd_Index aab"] h2(1,2) h6
    by blast
  have b: "sorted [- 1, 0, 0 :: int]" "\<not> recurs [- 1, 0, 0]"
    using B by blast+
  have b5: "[- 1, 0, 0] = first_appearance_ids (vals (pd_Index naa))"
    using B [THEN conjunct2, THEN conjunct2, THEN conjunct2, THEN conjunct2, rule_format,
        of "pd_Index naa"] h2(3,4)
    by blast
  have c: "\<not> recurs [0, 1, 2]"
    using C by blast
  have c4: "set [0, 1, 2 :: int] = int ` {0..<length (vals abc_columns)}"
    using C [THEN conjunct2, THEN conjunct2, THEN conjunct2, THEN conjunct1] h3
    by blast
  note a5 [THEN conjunct1] a5 [THEN conjunct2]
  with h1 h2 h3 h4 h5 h6 a b b5 c c4 show ?thesis by blast
qed

text \<open>
  C8 as stated fails on a missing label. The labels \<open>missing, a, a\<close> over three columns
  are returned with the ids \<open>- 1, 0, 0\<close> and a group index of one label: the id \<open>- 1\<close> is
  outside \<open>0, ..., G - 1\<close>.
\<close>

theorem group_ids_missing_counterexample:
  "get_groups_and_index no_levels abc_columns (GArray naa)
     = Inr ([- 1, 0, 0], \<lparr>vals = [Label ''a''], names = [None]\<rparr>)
   \<and> - 1 \<in> set [- 1, 0, 0 :: int]
   \<and> - 1 \<notin> int ` {0..<length (vals \<lparr>vals = [Label ''a''], names = [None]\<rparr>)}
   \<and> set [- 1, 0, 0 :: int]
        \<noteq> int ` {0..<length (vals \<lparr>vals = [Label ''a''], names = [None]\<rparr>)}"
proof -
  have "length (vals abc_columns) = 3"
    by (simp add: abc_columns_def pd_Index_def)
  then have "get_groups_and_index no_levels abc_columns (GArray naa)
     = Inr ([- 1, 0, 0], \<lparr>vals = [Label ''a''], names = [None]\<rparr>)"
    by (rule get_groups_and_index_naa)
  moreover have "- 1 \<notin> int ` {0..<length (vals \<lparr>vals = [Label ''a''], names = [None]\<rparr>)}"
    by auto
  ultimately show ?thesis by auto
qed

end
